theory Spec2Isabelle
  imports Main "HOL-Library.Word"
begin

unbundle bit_operations_syntax

section \<open>OAuth 2.0 authorization server with PKCE (main.go)\<close>

text \<open>
  A shallow embedding of \<^verbatim>\<open>main.go\<close>. Go strings are byte sequences, so they are
  \<^typ>\<open>string\<close> here (a list of 8-bit characters). The two process-wide maps are the
  fields of a state record that every handler receives and returns. What a handler
  reads from its environment (the clock, the UUID generator) is an argument of the
  handler, one argument per call in the source, in the order of the calls. What a
  handler writes to its \<^verbatim>\<open>http.ResponseWriter\<close> is returned as a value that records the
  call made into \<^verbatim>\<open>net/http\<close> or \<^verbatim>\<open>encoding/json\<close> with its arguments.
\<close>

subsection \<open>The standard library functions used by \<^verbatim>\<open>verifyPKCE\<close>\<close>

text \<open>
  \<^verbatim>\<open>crypto/sha256\<close> and \<^verbatim>\<open>encoding/base64\<close> belong to the Go distribution. They are
  modelled here after the standards they implement: SHA-256 as in FIPS 180-4, over
  32-bit words whose addition wraps, and the URL-safe alphabet of RFC 4648 without
  padding. The round constants and the initial hash value are written in decimal.
\<close>

type_synonym byte = "8 word"
type_synonym uint32 = "32 word"

definition rotr :: "nat \<Rightarrow> uint32 \<Rightarrow> uint32" where
  "rotr n x = drop_bit n x OR push_bit (32 - n) x"

definition K256 :: "uint32 list" where
  "K256 = [
    1116352408, 1899447441, 3049323471, 3921009573, 961987163, 1508970993, 2453635748, 2870763221,
    3624381080, 310598401, 607225278, 1426881987, 1925078388, 2162078206, 2614888103, 3248222580,
    3835390401, 4022224774, 264347078, 604807628, 770255983, 1249150122, 1555081692, 1996064986,
    2554220882, 2821834349, 2952996808, 3210313671, 3336571891, 3584528711, 113926993, 338241895,
    666307205, 773529912, 1294757372, 1396182291, 1695183700, 1986661051, 2177026350, 2456956037,
    2730485921, 2820302411, 3259730800, 3345764771, 3516065817, 3600352804, 4094571909, 275423344,
    430227734, 506948616, 659060556, 883997877, 958139571, 1322822218, 1537002063, 1747873779,
    1955562222, 2024104815, 2227730452, 2361852424, 2428436474, 2756734187, 3204031479, 3329325298]"

definition init256 :: "uint32 list" where
  "init256 = [1779033703, 3144134277, 1013904242, 2773480762,
              1359893119, 2600822924, 528734635, 1541459225]"

text \<open>Big-endian reading of a block as 32-bit words, and writing of words as bytes.\<close>

fun be32 :: "byte list \<Rightarrow> uint32 list" where
  "be32 (a # b # c # d # rest) =
     (push_bit 24 (ucast a) OR push_bit 16 (ucast b) OR push_bit 8 (ucast c) OR ucast d) # be32 rest"
| "be32 _ = []"

definition put_be32 :: "uint32 \<Rightarrow> byte list" where
  "put_be32 x = [ucast (drop_bit 24 x), ucast (drop_bit 16 x), ucast (drop_bit 8 x), ucast x]"

definition put_be64 :: "64 word \<Rightarrow> byte list" where
  "put_be64 x = map (\<lambda>i. ucast (drop_bit (8 * i) x)) [7, 6, 5, 4, 3, 2, 1, 0]"

definition ssig0 :: "uint32 \<Rightarrow> uint32" where
  "ssig0 x = rotr 7 x XOR rotr 18 x XOR drop_bit 3 x"

definition ssig1 :: "uint32 \<Rightarrow> uint32" where
  "ssig1 x = rotr 17 x XOR rotr 19 x XOR drop_bit 10 x"

definition bsig0 :: "uint32 \<Rightarrow> uint32" where
  "bsig0 x = rotr 2 x XOR rotr 13 x XOR rotr 22 x"

definition bsig1 :: "uint32 \<Rightarrow> uint32" where
  "bsig1 x = rotr 6 x XOR rotr 11 x XOR rotr 25 x"

text \<open>The message schedule: \<open>schedule 48\<close> extends the 16 words of a block to 64.\<close>

fun schedule :: "nat \<Rightarrow> uint32 list \<Rightarrow> uint32 list" where
  "schedule 0 w = w"
| "schedule (Suc n) w =
     schedule n (w @ [ssig1 (w ! (length w - 2)) + w ! (length w - 7)
                      + ssig0 (w ! (length w - 15)) + w ! (length w - 16)])"

definition rotate_vars :: "uint32 \<Rightarrow> uint32 \<Rightarrow> uint32 list \<Rightarrow> uint32 list" where
  "rotate_vars t1 t2 hs = (t1 + t2) # take 3 hs @ (hs ! 3 + t1) # take 3 (drop 4 hs)"

fun round256 :: "uint32 list \<Rightarrow> (uint32 \<times> uint32) \<Rightarrow> uint32 list" where
  "round256 [a, b, c, d, e, f, g, h] (k, w) =
     rotate_vars (h + bsig1 e + ((e AND f) XOR (NOT e AND g)) + k + w)
                 (bsig0 a + ((a AND b) XOR (a AND c) XOR (b AND c)))
                 [a, b, c, d, e, f, g, h]"
| "round256 hs _ = hs"

definition block :: "uint32 list \<Rightarrow> byte list \<Rightarrow> uint32 list" where
  "block hs p = map2 (+) hs (foldl round256 hs (zip K256 (schedule 48 (be32 p))))"

function blocks :: "uint32 list \<Rightarrow> byte list \<Rightarrow> uint32 list" where
  "blocks hs p = (if length p < 64 then hs else blocks (block hs (take 64 p)) (drop 64 p))"
  by pat_completeness auto
termination
  by (relation "measure (\<lambda>(hs, p). length p)") auto

declare blocks.simps [simp del]

text \<open>
  Padding of a message of \<open>n\<close> bytes: the byte \<open>0x80\<close>, zeros up to 56 modulo 64, and
  the length in bits as a 64-bit big-endian number (the length wraps at \<open>2 ^ 64\<close>
  as Go's \<^verbatim>\<open>uint64\<close> does).
\<close>

definition padding :: "nat \<Rightarrow> byte list" where
  "padding n = 0x80 # replicate ((119 - n mod 64) mod 64) 0 @ put_be64 (push_bit 3 (word_of_nat n))"

definition Sum256 :: "byte list \<Rightarrow> byte list" where
  "Sum256 data = concat (map put_be32 (blocks init256 (data @ padding (length data))))"

text \<open>The conversion \<^verbatim>\<open>[]byte(s)\<close>.\<close>

definition bytes_of :: "string \<Rightarrow> byte list" where
  "bytes_of s = map (\<lambda>c. word_of_nat (of_char c)) s"

text \<open>\<^verbatim>\<open>base64.RawURLEncoding.EncodeToString\<close>: three bytes give four characters, a
  remainder of one byte gives two, of two bytes three; no padding character.\<close>

definition encodeURL :: string where
  "encodeURL = ''ABCDEFGHIJKLMNOPQRSTUVWXYZabcdefghijklmnopqrstuvwxyz0123456789-_''"

definition enc6 :: "nat \<Rightarrow> char" where
  "enc6 v = encodeURL ! (v mod 64)"

fun EncodeToString :: "byte list \<Rightarrow> string" where
  "EncodeToString (a # b # c # rest) =
     enc6 ((unat a * 65536 + unat b * 256 + unat c) div 262144)
     # enc6 ((unat a * 65536 + unat b * 256 + unat c) div 4096)
     # enc6 ((unat a * 65536 + unat b * 256 + unat c) div 64)
     # enc6 (unat a * 65536 + unat b * 256 + unat c)
     # EncodeToString rest"
| "EncodeToString [a, b] =
     [enc6 ((unat a * 65536 + unat b * 256) div 262144),
      enc6 ((unat a * 65536 + unat b * 256) div 4096),
      enc6 ((unat a * 65536 + unat b * 256) div 64)]"
| "EncodeToString [a] =
     [enc6 ((unat a * 65536) div 262144), enc6 ((unat a * 65536) div 4096)]"
| "EncodeToString [] = []"

subsection \<open>Utilities\<close>

definition verifyPKCE :: "string \<Rightarrow> string \<Rightarrow> bool" where
  "verifyPKCE challenge verifier =
     (let hash = Sum256 (bytes_of verifier);
          encoded = EncodeToString hash
      in encoded = challenge)"

text \<open>\<^verbatim>\<open>strings.HasPrefix\<close> and \<^verbatim>\<open>strings.TrimPrefix\<close>.\<close>

definition HasPrefix :: "string \<Rightarrow> string \<Rightarrow> bool" where
  "HasPrefix s p = (length p \<le> length s \<and> take (length p) s = p)"

definition TrimPrefix :: "string \<Rightarrow> string \<Rightarrow> string" where
  "TrimPrefix s p = (if HasPrefix s p then drop (length p) s else s)"

subsection \<open>Simulation data and storage\<close>

definition ClientID :: string where
  "ClientID = ''demo-client''"

definition ClientSecret :: string where
  "ClientSecret = ''demo-secret''"

definition RedirectURI :: string where
  "RedirectURI = ''http://localhost:8080/cb''"

text \<open>
  A \<^verbatim>\<open>time.Time\<close> is an instant in nanoseconds on one time line, a \<^verbatim>\<open>time.Duration\<close>
  a number of nanoseconds. Every instant of the program comes from \<^verbatim>\<open>time.Now()\<close>,
  possibly moved by \<^verbatim>\<open>Add\<close>, so all of them are compared on the same clock.
\<close>

type_synonym time = int
type_synonym duration = int

definition Minute :: duration where
  "Minute = 60000000000"

definition Hour :: duration where
  "Hour = 60 * Minute"

definition Add :: "time \<Rightarrow> duration \<Rightarrow> time" where
  "Add t d = t + d"

definition After :: "time \<Rightarrow> time \<Rightarrow> bool" where
  "After t u = (u < t)"

record AuthCode =
  ac_Code :: string
  ac_ClientID :: string
  ac_RedirectURI :: string
  ac_CodeChallenge :: string
  ac_CodeChallengeMethod :: string
  ac_ExpiresAt :: time

record AccessToken =
  at_Token :: string
  at_ClientID :: string
  at_ExpiresAt :: time

text \<open>The package variables \<^verbatim>\<open>codeStore\<close> and \<^verbatim>\<open>tokenStore\<close>; both start empty.\<close>

record server =
  codeStore :: "string \<rightharpoonup> AuthCode"
  tokenStore :: "string \<rightharpoonup> AccessToken"

definition init_server :: server where
  "init_server = \<lparr>codeStore = Map.empty, tokenStore = Map.empty\<rparr>"

subsection \<open>Requests and responses\<close>

text \<open>
  \<^verbatim>\<open>url.Values\<close> and \<^verbatim>\<open>http.Header\<close> map a key to a list of values; a missing key has
  the empty list, and \<^verbatim>\<open>Get\<close> returns the first value or the empty string. \<open>Form\<close> is
  what \<^verbatim>\<open>r.ParseForm()\<close> leaves in \<^verbatim>\<open>r.Form\<close>, or \<open>None\<close> when it returns an error;
  after a successful \<^verbatim>\<open>ParseForm\<close>, \<^verbatim>\<open>r.FormValue(key)\<close> is \<^verbatim>\<open>Get\<close> on it.
\<close>

type_synonym url_values = "string \<Rightarrow> string list"

definition Get :: "url_values \<Rightarrow> string \<Rightarrow> string" where
  "Get vs key = (case vs key of [] \<Rightarrow> [] | v # _ \<Rightarrow> v)"

record request =
  Method :: string
  Query :: url_values
  Form :: "url_values option"
  Header :: url_values

datatype jvalue = JString string | JNumber int

text \<open>
  A response is the call a handler makes on its \<^verbatim>\<open>ResponseWriter\<close>:
  \<open>Error msg code\<close> is \<^verbatim>\<open>http.Error(w, msg, code)\<close>, \<open>Redirect url code\<close> is
  \<^verbatim>\<open>http.Redirect(w, r, url, code)\<close>, \<open>Json code m\<close> is a response with content type
  \<^verbatim>\<open>application/json\<close>, status \<open>code\<close> and the encoding of the Go map \<open>m\<close> as its
  body, \<open>Html body\<close> a response of status 200 with content type \<^verbatim>\<open>text/html\<close>.
\<close>

datatype response =
  Error string nat
| Redirect string nat
| Json nat "string \<rightharpoonup> jvalue"
| Html string

fun status :: "response \<Rightarrow> nat" where
  "status (Error msg code) = code"
| "status (Redirect url code) = code"
| "status (Json code m) = code"
| "status (Html body) = 200"

definition StatusOK :: nat where
  "StatusOK = 200"

definition StatusFound :: nat where
  "StatusFound = 302"

definition StatusBadRequest :: nat where
  "StatusBadRequest = 400"

definition StatusUnauthorized :: nat where
  "StatusUnauthorized = 401"

definition StatusMethodNotAllowed :: nat where
  "StatusMethodNotAllowed = 405"

definition jsonError :: "string \<Rightarrow> nat \<Rightarrow> response" where
  "jsonError err code = Json code [''error'' \<mapsto> JString err]"

subsection \<open>Handlers\<close>

text \<open>
  \<open>handleAuthorize s r uuid now\<close>: \<open>uuid\<close> is the value of \<^verbatim>\<open>uuid.New().String()\<close>
  and \<open>now\<close> that of \<^verbatim>\<open>time.Now()\<close>; neither is read when validation fails.
\<close>

definition handleAuthorize :: "server \<Rightarrow> request \<Rightarrow> string \<Rightarrow> time \<Rightarrow> response \<times> server" where
  "handleAuthorize s r uuid now =
     (let query = Query r in
      if Get query ''client_id'' \<noteq> ClientID then
        (Error ''Invalid client_id'' StatusBadRequest, s)
      else if Get query ''redirect_uri'' \<noteq> RedirectURI then
        (Error ''Invalid redirect_uri'' StatusBadRequest, s)
      else if Get query ''response_type'' \<noteq> ''code'' then
        (Error ''Unsupported response_type'' StatusBadRequest, s)
      else
        let challenge = Get query ''code_challenge'';
            method = Get query ''code_challenge_method'' in
        if challenge = [] \<or> method \<noteq> ''S256'' then
          (Error ''PKCE required (code_challenge + S256)'' StatusBadRequest, s)
        else
          let code = uuid;
              s' = s\<lparr>codeStore := (codeStore s)(code \<mapsto>
                     \<lparr>ac_Code = code,
                      ac_ClientID = ClientID,
                      ac_RedirectURI = RedirectURI,
                      ac_CodeChallenge = challenge,
                      ac_CodeChallengeMethod = method,
                      ac_ExpiresAt = Add now (10 * Minute)\<rparr>)\<rparr>;
              state = Get query ''state'';
              redirectURL = RedirectURI @ ''?code='' @ code @ ''&state='' @ state
          in (Redirect redirectURL StatusFound, s'))"

text \<open>
  \<open>handleToken s r now1 uuid now2\<close>: \<open>now1\<close> is \<^verbatim>\<open>time.Now()\<close> of the expiry check,
  \<open>uuid\<close> the generated token and \<open>now2\<close> is \<^verbatim>\<open>time.Now()\<close> of the token's issue.
  The lookup and the \<^verbatim>\<open>delete\<close> happen under one hold of the mutex; the lookup of a
  missing key gives \<open>None\<close> (\<^verbatim>\<open>exists\<close> false).
\<close>

definition handleToken ::
  "server \<Rightarrow> request \<Rightarrow> time \<Rightarrow> string \<Rightarrow> time \<Rightarrow> response \<times> server" where
  "handleToken s r now1 uuid now2 =
     (if Method r \<noteq> ''POST'' then
        (Error ''Method not allowed'' StatusMethodNotAllowed, s)
      else case Form r of
        None \<Rightarrow> (Error ''Failed to parse form'' StatusBadRequest, s)
      | Some form \<Rightarrow>
        let grantType = Get form ''grant_type'';
            code = Get form ''code'';
            verifier = Get form ''code_verifier'';
            clientID = Get form ''client_id'' in
        if grantType \<noteq> ''authorization_code'' then
          (jsonError ''unsupported_grant_type'' StatusBadRequest, s)
        else
          let found = codeStore s code;
              s1 = s\<lparr>codeStore := (codeStore s)(code := None)\<rparr> in
          case found of
            None \<Rightarrow> (jsonError ''invalid_grant'' StatusBadRequest, s1)
          | Some authCode \<Rightarrow>
            if After now1 (ac_ExpiresAt authCode) then
              (jsonError ''code_expired'' StatusBadRequest, s1)
            else if ac_ClientID authCode \<noteq> clientID then
              (jsonError ''invalid_client'' StatusUnauthorized, s1)
            else if \<not> verifyPKCE (ac_CodeChallenge authCode) verifier then
              (jsonError ''invalid_request'' StatusBadRequest, s1)
            else
              let token = uuid;
                  s2 = s1\<lparr>tokenStore := (tokenStore s1)(token \<mapsto>
                         \<lparr>at_Token = token,
                          at_ClientID = clientID,
                          at_ExpiresAt = Add now2 (1 * Hour)\<rparr>)\<rparr>
              in (Json StatusOK [''access_token'' \<mapsto> JString token,
                                 ''token_type'' \<mapsto> JString ''Bearer'',
                                 ''expires_in'' \<mapsto> JNumber 3600], s2))"

definition userInfo :: "string \<rightharpoonup> jvalue" where
  "userInfo = [''sub'' \<mapsto> JString ''user_123'',
               ''name'' \<mapsto> JString ''Alice Doe'',
               ''email'' \<mapsto> JString ''alice@example.com'',
               ''role'' \<mapsto> JString ''admin'',
               ''data'' \<mapsto> JString ''Private Photos from Snap Store'']"

definition handleUserInfo :: "server \<Rightarrow> request \<Rightarrow> time \<Rightarrow> response \<times> server" where
  "handleUserInfo s r now =
     (let authHeader = Get (Header r) ''Authorization'' in
      if \<not> HasPrefix authHeader ''Bearer '' then
        (Error ''Unauthorized'' StatusUnauthorized, s)
      else
        let token = TrimPrefix authHeader ''Bearer '' in
        case tokenStore s token of
          None \<Rightarrow> (Error ''Invalid or expired token'' StatusUnauthorized, s)
        | Some accessToken \<Rightarrow>
          if After now (at_ExpiresAt accessToken) then
            (Error ''Invalid or expired token'' StatusUnauthorized, s)
          else (Json StatusOK userInfo, s))"

text \<open>
  The helper page of the demo. The body is the format string of \<^verbatim>\<open>fmt.Fprintf\<close> with
  its three \<^verbatim>\<open>%s\<close> replaced by \<open>code\<close>, \<open>state\<close> and \<open>code\<close>.
\<close>

definition nl :: string where
  "nl = [CHR 0x0A]"

definition tabs :: string where
  "tabs = [CHR 0x09, CHR 0x09]"

definition dq :: string where
  "dq = [CHR 0x22]"

definition bs :: string where
  "bs = [CHR 0x5C]"

definition callbackPage :: "string \<Rightarrow> string \<Rightarrow> string \<Rightarrow> string" where
  "callbackPage a b c =
     nl @ tabs @ ''<h1>Callback Received!</h1>''
     @ nl @ tabs @ ''<p><b>Code:</b> '' @ a @ ''</p>''
     @ nl @ tabs @ ''<p><b>State:</b> '' @ b @ ''</p>''
     @ nl @ tabs @ ''<hr>''
     @ nl @ tabs @ ''<h3>Next Step: Exchange Code for Token</h3>''
     @ nl @ tabs @ ''<p>Run this command in your terminal:</p>''
     @ nl @ tabs @ ''<pre style='' @ dq @ ''background: #eee; padding: 10px;'' @ dq @ ''>''
     @ nl @ ''curl -X POST http://localhost:8080/token '' @ bs
     @ nl @ ''  -d '' @ dq @ ''grant_type=authorization_code'' @ dq @ '' '' @ bs
     @ nl @ ''  -d '' @ dq @ ''client_id=demo-client'' @ dq @ '' '' @ bs
     @ nl @ ''  -d '' @ dq @ ''code='' @ c @ dq @ '' '' @ bs
     @ nl @ ''  -d '' @ dq @ ''redirect_uri=http://localhost:8080/cb'' @ dq @ '' '' @ bs
     @ nl @ ''  -d '' @ dq @ ''code_verifier=secret-verifier-string'' @ dq
     @ nl @ tabs @ ''</pre>''
     @ nl @ [CHR 0x09]"

definition handleCallback :: "server \<Rightarrow> request \<Rightarrow> response \<times> server" where
  "handleCallback s r =
     (let code = Get (Query r) ''code'';
          state = Get (Query r) ''state''
      in (Html (callbackPage code state code), s))"

subsection \<open>The server as a transition system\<close>

text \<open>
  The states the server can be in when every request is handled from start to end
  before the next one: \<^verbatim>\<open>main\<close> registers the four handlers and the stores start empty.
  Requests, clock readings and generated identifiers are arbitrary.
\<close>

inductive reachable :: "server \<Rightarrow> bool" where
  reachable_init: "reachable init_server"
| reachable_authorize: "reachable s \<Longrightarrow> reachable (snd (handleAuthorize s r uuid now))"
| reachable_token: "reachable s \<Longrightarrow> reachable (snd (handleToken s r now1 uuid now2))"
| reachable_userinfo: "reachable s \<Longrightarrow> reachable (snd (handleUserInfo s r now))"
| reachable_callback: "reachable s \<Longrightarrow> reachable (snd (handleCallback s r))"

subsection \<open>Concrete requests\<close>

text \<open>
  The requests of the walk-through that \<^verbatim>\<open>main\<close> and the callback page print, with
  their fields as parameters. \<open>values_of\<close> builds the \<^verbatim>\<open>url.Values\<close> of a list of
  key-value pairs.
\<close>

definition values_of :: "(string \<times> string) list \<Rightarrow> url_values" where
  "values_of kvs key = map snd (filter (\<lambda>kv. fst kv = key) kvs)"

definition authorize_request ::
  "string \<Rightarrow> string \<Rightarrow> string \<Rightarrow> string \<Rightarrow> string \<Rightarrow> string \<Rightarrow> request" where
  "authorize_request response_type client_id redirect_uri state challenge method =
     \<lparr>Method = ''GET'',
      Query = values_of [(''response_type'', response_type), (''client_id'', client_id),
                (''redirect_uri'', redirect_uri), (''scope'', ''read''), (''state'', state),
                (''code_challenge'', challenge), (''code_challenge_method'', method)],
      Form = None,
      Header = values_of []\<rparr>"

definition demo_challenge :: string where
  "demo_challenge = ''LQZxoESZIZMv7j_6u2jBWnivm0jsDelp3OLcKeo64S4''"

definition demo_verifier :: string where
  "demo_verifier = ''secret-verifier-string''"

definition demo_authorize :: request where
  "demo_authorize =
     authorize_request ''code'' ''demo-client'' ''http://localhost:8080/cb'' ''xyz123''
       demo_challenge ''S256''"

definition token_request ::
  "string \<Rightarrow> string \<Rightarrow> string \<Rightarrow> string \<Rightarrow> string \<Rightarrow> request" where
  "token_request method grant_type client_id code verifier =
     \<lparr>Method = method,
      Query = values_of [],
      Form = Some (values_of [(''grant_type'', grant_type), (''client_id'', client_id),
                (''code'', code), (''redirect_uri'', ''http://localhost:8080/cb''),
                (''code_verifier'', verifier)]),
      Header = values_of []\<rparr>"

definition demo_token :: request where
  "demo_token =
     token_request ''POST'' ''authorization_code'' ''demo-client'' ''code-1'' demo_verifier"

definition userinfo_request :: "string \<Rightarrow> request" where
  "userinfo_request authorization =
     \<lparr>Method = ''GET'',
      Query = values_of [],
      Form = None,
      Header = values_of [(''Authorization'', authorization)]\<rparr>"

text \<open>The store after the authorization request of the walk-through at time 0, with
  \<open>code-1\<close> as the generated code, and after the exchange of that code at time 5.\<close>

definition demo_issued :: server where
  "demo_issued = snd (handleAuthorize init_server demo_authorize ''code-1'' 0)"

definition demo_exchanged :: server where
  "demo_exchanged = snd (handleToken demo_issued demo_token 5 ''token-1'' 5)"

subsection \<open>Concurrent requests\<close>

text \<open>
  \<^verbatim>\<open>net/http\<close> runs every request in a goroutine of its own, so the handlers
  interleave; the only synchronisation is the mutex \<^verbatim>\<open>mu\<close>. Every access to the two
  maps happens while the mutex is held, so the program has no data race and behaves as
  an interleaving of the steps below. A goroutine is its handler,
  its request, the values it will read from its environment (the generated identifier
  and the two clock readings, as in the handlers above), its program counter and its
  local variables: \<^verbatim>\<open>authCode, exists\<close> of \<^verbatim>\<open>handleToken\<close> as one option,
  \<^verbatim>\<open>accessToken, exists\<close> of \<^verbatim>\<open>handleUserInfo\<close> as another, and the response once it
  has been written.

  The program counters cut a handler at its \<^verbatim>\<open>mu.Lock()\<close> and \<^verbatim>\<open>mu.Unlock()\<close> calls
  and at every access to a store:
  \<^item> \<^verbatim>\<open>handleAuthorize\<close>: \<open>Start\<close> (lines 67-96), \<open>Lock1\<close> (98), \<open>Store\<close> (99-106),
    \<open>Unlock1\<close> (107), \<open>Reply\<close> (110-113);
  \<^item> \<^verbatim>\<open>handleToken\<close>: \<open>Start\<close> (119-137), \<open>Lock1\<close> (139), \<open>Lookup\<close> (140),
    \<open>Delete\<close> (141), \<open>Unlock1\<close> (142), \<open>Check\<close> (144-165), \<open>Lock2\<close> (167),
    \<open>Store\<close> (168-172), \<open>Unlock2\<close> (173), \<open>Reply\<close> (176-181);
  \<^item> \<^verbatim>\<open>handleUserInfo\<close>: \<open>Start\<close> (187-193), \<open>Lock1\<close> (195), \<open>Lookup\<close> (196),
    \<open>Unlock1\<close> (197), \<open>Check\<close> (199-211);
  \<^item> \<^verbatim>\<open>handleCallback\<close>: \<open>Start\<close> (216-235).
\<close>

datatype job = AuthorizeJob | TokenJob | UserInfoJob | CallbackJob

datatype pc = Start | Lock1 | Lookup | Delete | Unlock1 | Check | Lock2 | Store | Unlock2
  | Reply | Finished

record goroutine =
  g_job :: job
  g_req :: request
  g_uuid :: string
  g_now1 :: time
  g_now2 :: time
  g_pc :: pc
  g_authCode :: "AuthCode option"
  g_accessToken :: "AccessToken option"
  g_reply :: "response option"

definition spawn :: "job \<Rightarrow> request \<Rightarrow> string \<Rightarrow> time \<Rightarrow> time \<Rightarrow> goroutine" where
  "spawn j r uuid now1 now2 =
     \<lparr>g_job = j, g_req = r, g_uuid = uuid, g_now1 = now1, g_now2 = now2, g_pc = Start,
      g_authCode = None, g_accessToken = None, g_reply = None\<rparr>"

text \<open>\<^verbatim>\<open>r.FormValue(key)\<close>; the handler reads it only after \<^verbatim>\<open>ParseForm\<close> succeeded.\<close>

definition FormValue :: "request \<Rightarrow> string \<Rightarrow> string" where
  "FormValue r key = (case Form r of None \<Rightarrow> [] | Some form \<Rightarrow> Get form key)"

definition goto :: "pc \<Rightarrow> goroutine \<Rightarrow> goroutine" where
  "goto l g = g\<lparr>g_pc := l\<rparr>"

definition finish :: "response \<Rightarrow> goroutine \<Rightarrow> goroutine" where
  "finish resp g = g\<lparr>g_pc := Finished, g_reply := Some resp\<rparr>"

text \<open>
  The mutex is the index of the goroutine that holds it, or \<open>None\<close>. \<^verbatim>\<open>mu.Lock()\<close> by
  goroutine \<open>i\<close> takes a free mutex and moves on; on a held mutex the goroutine stays
  where it is. \<^verbatim>\<open>mu.Unlock()\<close> frees the mutex.
\<close>

definition acquire ::
  "nat \<Rightarrow> pc \<Rightarrow> goroutine \<Rightarrow> server \<Rightarrow> nat option \<Rightarrow> goroutine \<times> server \<times> nat option" where
  "acquire i l g s m = (if m = None then (goto l g, s, Some i) else (g, s, m))"

text \<open>One step of goroutine \<open>i\<close>, by handler and program counter, on the stores \<open>s\<close>
  and the mutex \<open>m\<close>. A goroutine that has returned does not move.\<close>

fun step ::
  "job \<Rightarrow> pc \<Rightarrow> nat \<Rightarrow> goroutine \<Rightarrow> server \<Rightarrow> nat option \<Rightarrow> goroutine \<times> server \<times> nat option" where
  "step AuthorizeJob Start i g s m =
     (let query = Query (g_req g) in
      if Get query ''client_id'' \<noteq> ClientID then
        (finish (Error ''Invalid client_id'' StatusBadRequest) g, s, m)
      else if Get query ''redirect_uri'' \<noteq> RedirectURI then
        (finish (Error ''Invalid redirect_uri'' StatusBadRequest) g, s, m)
      else if Get query ''response_type'' \<noteq> ''code'' then
        (finish (Error ''Unsupported response_type'' StatusBadRequest) g, s, m)
      else if Get query ''code_challenge'' = [] \<or> Get query ''code_challenge_method'' \<noteq> ''S256'' then
        (finish (Error ''PKCE required (code_challenge + S256)'' StatusBadRequest) g, s, m)
      else (goto Lock1 g, s, m))"
| "step AuthorizeJob Lock1 i g s m = acquire i Store g s m"
| "step AuthorizeJob Store i g s m =
     (goto Unlock1 g,
      s\<lparr>codeStore := (codeStore s)(g_uuid g \<mapsto>
          \<lparr>ac_Code = g_uuid g,
           ac_ClientID = ClientID,
           ac_RedirectURI = RedirectURI,
           ac_CodeChallenge = Get (Query (g_req g)) ''code_challenge'',
           ac_CodeChallengeMethod = Get (Query (g_req g)) ''code_challenge_method'',
           ac_ExpiresAt = Add (g_now1 g) (10 * Minute)\<rparr>)\<rparr>,
      m)"
| "step AuthorizeJob Unlock1 i g s m = (goto Reply g, s, None)"
| "step AuthorizeJob Reply i g s m =
     (finish (Redirect (RedirectURI @ ''?code='' @ g_uuid g @ ''&state=''
                @ Get (Query (g_req g)) ''state'') StatusFound) g, s, m)"
| "step TokenJob Start i g s m =
     (if Method (g_req g) \<noteq> ''POST'' then
        (finish (Error ''Method not allowed'' StatusMethodNotAllowed) g, s, m)
      else if Form (g_req g) = None then
        (finish (Error ''Failed to parse form'' StatusBadRequest) g, s, m)
      else if FormValue (g_req g) ''grant_type'' \<noteq> ''authorization_code'' then
        (finish (jsonError ''unsupported_grant_type'' StatusBadRequest) g, s, m)
      else (goto Lock1 g, s, m))"
| "step TokenJob Lock1 i g s m = acquire i Lookup g s m"
| "step TokenJob Lookup i g s m =
     (goto Delete (g\<lparr>g_authCode := codeStore s (FormValue (g_req g) ''code'')\<rparr>), s, m)"
| "step TokenJob Delete i g s m =
     (goto Unlock1 g, s\<lparr>codeStore := (codeStore s)(FormValue (g_req g) ''code'' := None)\<rparr>, m)"
| "step TokenJob Unlock1 i g s m = (goto Check g, s, None)"
| "step TokenJob Check i g s m =
     (case g_authCode g of
        None \<Rightarrow> (finish (jsonError ''invalid_grant'' StatusBadRequest) g, s, m)
      | Some authCode \<Rightarrow>
        if After (g_now1 g) (ac_ExpiresAt authCode) then
          (finish (jsonError ''code_expired'' StatusBadRequest) g, s, m)
        else if ac_ClientID authCode \<noteq> FormValue (g_req g) ''client_id'' then
          (finish (jsonError ''invalid_client'' StatusUnauthorized) g, s, m)
        else if \<not> verifyPKCE (ac_CodeChallenge authCode) (FormValue (g_req g) ''code_verifier'') then
          (finish (jsonError ''invalid_request'' StatusBadRequest) g, s, m)
        else (goto Lock2 g, s, m))"
| "step TokenJob Lock2 i g s m = acquire i Store g s m"
| "step TokenJob Store i g s m =
     (goto Unlock2 g,
      s\<lparr>tokenStore := (tokenStore s)(g_uuid g \<mapsto>
          \<lparr>at_Token = g_uuid g,
           at_ClientID = FormValue (g_req g) ''client_id'',
           at_ExpiresAt = Add (g_now2 g) (1 * Hour)\<rparr>)\<rparr>,
      m)"
| "step TokenJob Unlock2 i g s m = (goto Reply g, s, None)"
| "step TokenJob Reply i g s m =
     (finish (Json StatusOK [''access_token'' \<mapsto> JString (g_uuid g),
                             ''token_type'' \<mapsto> JString ''Bearer'',
                             ''expires_in'' \<mapsto> JNumber 3600]) g, s, m)"
| "step UserInfoJob Start i g s m =
     (if \<not> HasPrefix (Get (Header (g_req g)) ''Authorization'') ''Bearer '' then
        (finish (Error ''Unauthorized'' StatusUnauthorized) g, s, m)
      else (goto Lock1 g, s, m))"
| "step UserInfoJob Lock1 i g s m = acquire i Lookup g s m"
| "step UserInfoJob Lookup i g s m =
     (goto Unlock1
        (g\<lparr>g_accessToken :=
             tokenStore s (TrimPrefix (Get (Header (g_req g)) ''Authorization'') ''Bearer '')\<rparr>),
      s, m)"
| "step UserInfoJob Unlock1 i g s m = (goto Check g, s, None)"
| "step UserInfoJob Check i g s m =
     (case g_accessToken g of
        None \<Rightarrow> (finish (Error ''Invalid or expired token'' StatusUnauthorized) g, s, m)
      | Some accessToken \<Rightarrow>
        if After (g_now1 g) (at_ExpiresAt accessToken) then
          (finish (Error ''Invalid or expired token'' StatusUnauthorized) g, s, m)
        else (finish (Json StatusOK userInfo) g, s, m))"
| "step CallbackJob Start i g s m =
     (finish (Html (callbackPage (Get (Query (g_req g)) ''code'')
                      (Get (Query (g_req g)) ''state'') (Get (Query (g_req g)) ''code''))) g,
      s, m)"
| "step _ _ i g s m = (g, s, m)"

text \<open>
  The server with its goroutines. \<open>exec i\<close> lets goroutine \<open>i\<close> take its next step;
  \<open>run sched\<close> follows a schedule, a list of goroutine indices. Every interleaving of
  the goroutines is the run of some schedule; a goroutine that waits for the mutex is
  one whose turns change nothing.
\<close>

record config =
  srv :: server
  mu :: "nat option"
  goroutines :: "goroutine list"

definition exec :: "nat \<Rightarrow> config \<Rightarrow> config" where
  "exec i cfg =
     (if i < length (goroutines cfg) then
        (case step (g_job (goroutines cfg ! i)) (g_pc (goroutines cfg ! i)) i
                (goroutines cfg ! i) (srv cfg) (mu cfg) of
           (g', s', m') \<Rightarrow> \<lparr>srv = s', mu = m', goroutines = (goroutines cfg)[i := g']\<rparr>)
      else cfg)"

fun run :: "nat list \<Rightarrow> config \<Rightarrow> config" where
  "run [] cfg = cfg"
| "run (i # sched) cfg = run sched (exec i cfg)"

text \<open>The server that has accepted the requests \<open>arrivals\<close> and run none of them yet.\<close>

definition serve :: "(job \<times> request \<times> string \<times> time \<times> time) list \<Rightarrow> config" where
  "serve arrivals =
     \<lparr>srv = init_server, mu = None,
      goroutines = map (\<lambda>(j, r, uuid, now1, now2). spawn j r uuid now1 now2) arrivals\<rparr>"

text \<open>All goroutines have returned.\<close>

definition all_finished :: "config \<Rightarrow> bool" where
  "all_finished cfg = list_all (\<lambda>g. g_pc g = Finished) (goroutines cfg)"

subsection \<open>Goroutines racing for one code\<close>

text \<open>
  A request reaches the code lookup for the code \<open>c\<close> when it passes the checks before
  it: method POST, a form that parses, the grant type \<open>authorization_code\<close>, and its
  \<open>code\<close> is \<open>c\<close>. \<open>racers\<close> are the goroutines of such requests, not yet started.
\<close>

definition reaches_lookup :: "string \<Rightarrow> request \<Rightarrow> bool" where
  "reaches_lookup c r =
     (Method r = ''POST'' \<and>
      (case Form r of
         None \<Rightarrow> False
       | Some form \<Rightarrow> Get form ''grant_type'' = ''authorization_code'' \<and> Get form ''code'' = c))"

definition racers :: "(request \<times> string \<times> time \<times> time) list \<Rightarrow> goroutine list" where
  "racers args = map (\<lambda>(r, uuid, now1, now2). spawn TokenJob r uuid now1 now2) args"

text \<open>
  The invariant of a race for the code \<open>c\<close> whose entry was \<open>ac\<close>. For one goroutine:
  it is an exchange of \<open>c\<close>; it is between a lock and its unlock exactly when it holds
  the mutex; it has seen nothing before its lookup; it is past the checks only if it
  saw the entry; and if it has returned without seeing the entry, it has answered
  \<open>invalid_grant\<close>. For the store: while the entry is there, no goroutine is past its
  \<^verbatim>\<open>delete\<close>, and the one that saw the entry is the one about to delete it; once the
  entry is gone, exactly one goroutine has seen it.
\<close>

definition exchange_attempt :: "string \<Rightarrow> goroutine \<Rightarrow> bool" where
  "exchange_attempt c g =
     (g_job g = TokenJob \<and> Method (g_req g) = ''POST'' \<and> Form (g_req g) \<noteq> None \<and>
      FormValue (g_req g) ''grant_type'' = ''authorization_code'' \<and>
      FormValue (g_req g) ''code'' = c)"

definition holds_mu :: "pc \<Rightarrow> bool" where
  "holds_mu l = (l = Lookup \<or> l = Delete \<or> l = Unlock1 \<or> l = Store \<or> l = Unlock2)"

definition before_delete :: "pc \<Rightarrow> bool" where
  "before_delete l = (l = Start \<or> l = Lock1 \<or> l = Lookup \<or> l = Delete)"

definition race_local :: "string \<Rightarrow> AuthCode \<Rightarrow> nat option \<Rightarrow> nat \<Rightarrow> goroutine \<Rightarrow> bool" where
  "race_local c ac m i g =
     (exchange_attempt c g
      \<and> holds_mu (g_pc g) = (m = Some i)
      \<and> (g_authCode g = None \<or> g_authCode g = Some ac)
      \<and> (g_pc g = Start \<or> g_pc g = Lock1 \<or> g_pc g = Lookup \<longrightarrow> g_authCode g = None)
      \<and> (g_pc g = Lock2 \<or> g_pc g = Store \<or> g_pc g = Unlock2 \<or> g_pc g = Reply
            \<longrightarrow> g_authCode g = Some ac)
      \<and> (g_pc g = Finished \<and> g_authCode g = None
            \<longrightarrow> g_reply g = Some (jsonError ''invalid_grant'' StatusBadRequest)))"

definition store_inv :: "AuthCode \<Rightarrow> AuthCode option \<Rightarrow> goroutine list \<Rightarrow> bool" where
  "store_inv ac entry gs =
     (case entry of
        None \<Rightarrow> \<exists>k < length gs. \<forall>i < length gs. (g_authCode (gs ! i) = Some ac) = (i = k)
      | Some ac' \<Rightarrow> ac' = ac \<and>
          (\<forall>i < length gs. before_delete (g_pc (gs ! i)) \<and>
             (g_pc (gs ! i) = Delete) = (g_authCode (gs ! i) = Some ac)))"

definition race_inv :: "string \<Rightarrow> AuthCode \<Rightarrow> config \<Rightarrow> bool" where
  "race_inv c ac cfg =
     ((mu cfg = None \<or> (\<exists>h < length (goroutines cfg). mu cfg = Some h))
      \<and> (\<forall>i < length (goroutines cfg). race_local c ac (mu cfg) i (goroutines cfg ! i))
      \<and> store_inv ac (codeStore (srv cfg) c) (goroutines cfg))"

text \<open>The number of steps a token goroutine is at most away from its return.\<close>

fun rank :: "pc \<Rightarrow> nat" where
  "rank Start = 10"
| "rank Lock1 = 9"
| "rank Lookup = 8"
| "rank Delete = 7"
| "rank Unlock1 = 6"
| "rank Check = 5"
| "rank Lock2 = 4"
| "rank Store = 3"
| "rank Unlock2 = 2"
| "rank Reply = 1"
| "rank Finished = 0"

subsection \<open>Client ids in the stores and in the goroutines\<close>

definition store_clients :: "server \<Rightarrow> bool" where
  "store_clients s =
     ((\<forall>c authCode. codeStore s c = Some authCode \<longrightarrow> ac_ClientID authCode = ClientID) \<and>
      (\<forall>t accessToken. tokenStore s t = Some accessToken \<longrightarrow>
         at_ClientID accessToken = ClientID))"

definition goroutine_clients :: "goroutine \<Rightarrow> bool" where
  "goroutine_clients g =
     ((\<forall>authCode. g_authCode g = Some authCode \<longrightarrow> ac_ClientID authCode = ClientID) \<and>
      (g_job g = TokenJob \<and> (g_pc g = Lock2 \<or> g_pc g = Store) \<longrightarrow>
         FormValue (g_req g) ''client_id'' = ClientID))"

definition clients_inv :: "config \<Rightarrow> bool" where
  "clients_inv cfg =
     (store_clients (srv cfg) \<and> list_all goroutine_clients (goroutines cfg))"

subsection \<open>Concrete interleavings\<close>

text \<open>
  Three exchanges of \<open>code-1\<close> on the store \<open>demo_issued\<close>, the first with a wrong
  verifier. In \<open>demo_schedule\<close> all three start, goroutine 1 takes the mutex first while
  the others wait for it, then goroutine 2 and goroutine 0 take their turns with the
  mutex, and goroutine 1 stores its token last.
\<close>

definition demo_race :: "(request \<times> string \<times> time \<times> time) list" where
  "demo_race =
     [(token_request ''POST'' ''authorization_code'' ''demo-client'' ''code-1'' ''wrong-verifier'',
       ''token-a'', 5, 6),
      (demo_token, ''token-b'', 5, 6),
      (demo_token, ''token-c'', 5, 6)]"

definition demo_schedule :: "nat list" where
  "demo_schedule = [0, 1, 2, 1, 0, 2, 1, 1, 0, 1, 2, 0, 2, 2, 2, 0, 0, 0, 0, 1, 0, 2, 1, 1, 1, 1]"

definition demo_raced :: config where
  "demo_raced = run demo_schedule \<lparr>srv = demo_issued, mu = None, goroutines = racers demo_race\<rparr>"

text \<open>
  The walk-through as three goroutines on the empty server: all three start, the token
  request first; then the authorization runs to its end, then the exchange, then the
  user info request.
\<close>

definition demo_arrivals :: "(job \<times> request \<times> string \<times> time \<times> time) list" where
  "demo_arrivals =
     [(AuthorizeJob, demo_authorize, ''code-1'', 0, 0),
      (TokenJob, demo_token, ''token-1'', 5, 5),
      (UserInfoJob, userinfo_request ''Bearer token-1'', [], 7, 7)]"

definition demo_interleaving :: "nat list" where
  "demo_interleaving = [1, 0, 2, 0, 0, 0, 0, 1, 1, 1, 1, 1, 1, 1, 1, 1, 2, 2, 2, 2]"

definition demo_served :: config where
  "demo_served = run demo_interleaving (serve demo_arrivals)"

section \<open>Properties\<close>

subsection \<open>Evaluation of the concrete requests\<close>

lemma Get_values_of_Nil [simp]: "Get (values_of []) k = []"
  by (simp add: Get_def values_of_def)

lemma Get_values_of_Cons [simp]:
  "Get (values_of ((k', v) # kvs)) k = (if k' = k then v else Get (values_of kvs) k)"
  by (simp add: Get_def values_of_def)

lemma authorize_request_simps [simp]:
  "Get (Query (authorize_request rt cid uri st ch m)) ''client_id'' = cid"
  "Get (Query (authorize_request rt cid uri st ch m)) ''redirect_uri'' = uri"
  "Get (Query (authorize_request rt cid uri st ch m)) ''response_type'' = rt"
  "Get (Query (authorize_request rt cid uri st ch m)) ''code_challenge'' = ch"
  "Get (Query (authorize_request rt cid uri st ch m)) ''code_challenge_method'' = m"
  "Get (Query (authorize_request rt cid uri st ch m)) ''state'' = st"
  by (simp_all add: authorize_request_def)

lemma token_request_simps [simp]:
  "Method (token_request me gt cid code v) = me"
  "Form (token_request me gt cid code v) =
     Some (values_of [(''grant_type'', gt), (''client_id'', cid), (''code'', code),
             (''redirect_uri'', ''http://localhost:8080/cb''), (''code_verifier'', v)])"
  by (simp_all add: token_request_def)

lemma userinfo_request_simps [simp]:
  "Get (Header (userinfo_request a)) ''Authorization'' = a"
  by (simp add: userinfo_request_def)

text \<open>The challenge printed by \<^verbatim>\<open>main\<close> is the one of the verifier printed by the
  callback page: the SHA-256 model run on its 22 bytes, then the encoder.\<close>

lemma Sum256_demo:
  "Sum256 (bytes_of demo_verifier) =
     [45, 6, 113, 160, 68, 153, 33, 147, 47, 238, 63, 250, 187, 104, 193, 90,
      120, 175, 155, 72, 236, 13, 233, 105, 220, 226, 220, 41, 234, 58, 225, 46]"
  unfolding demo_verifier_def by code_simp

lemma verifyPKCE_demo: "verifyPKCE demo_challenge demo_verifier"
  unfolding verifyPKCE_def Let_def Sum256_demo
  by (simp add: enc6_def encodeURL_def demo_challenge_def)

lemma codeStore_demo_issued:
  "codeStore demo_issued =
     [''code-1'' \<mapsto> \<lparr>ac_Code = ''code-1'', ac_ClientID = ''demo-client'',
        ac_RedirectURI = ''http://localhost:8080/cb'', ac_CodeChallenge = demo_challenge,
        ac_CodeChallengeMethod = ''S256'', ac_ExpiresAt = 600000000000\<rparr>]"
  by (simp add: demo_issued_def demo_authorize_def handleAuthorize_def Let_def init_server_def
      ClientID_def RedirectURI_def Add_def Minute_def demo_challenge_def)


lemma demo_token_simps [simp]:
  "Method demo_token = ''POST''"
  "Form demo_token =
     Some (values_of [(''grant_type'', ''authorization_code''), (''client_id'', ''demo-client''),
             (''code'', ''code-1''), (''redirect_uri'', ''http://localhost:8080/cb''),
             (''code_verifier'', demo_verifier)])"
  by (simp_all add: demo_token_def)

lemma codeStore_demo_exchanged: "codeStore demo_exchanged = Map.empty"
  using verifyPKCE_demo
  by (simp add: demo_exchanged_def handleToken_def Let_def codeStore_demo_issued After_def)


lemma Sum256_wrong:
  "Sum256 (bytes_of ''wrong-verifier'') =
     [102, 232, 14, 13, 197, 245, 141, 38, 124, 122, 26, 217, 77, 11, 82, 228,
      209, 22, 230, 194, 11, 197, 169, 42, 116, 61, 152, 7, 34, 126, 196, 126]"
  by code_simp

lemma verifyPKCE_wrong: "\<not> verifyPKCE demo_challenge ''wrong-verifier''"
  unfolding verifyPKCE_def Let_def Sum256_wrong
  by (simp add: enc6_def encodeURL_def demo_challenge_def)

lemma demo_issued_code [simp]:
  "codeStore demo_issued ''code-1'' =
     Some \<lparr>ac_Code = ''code-1'', ac_ClientID = ''demo-client'',
        ac_RedirectURI = ''http://localhost:8080/cb'', ac_CodeChallenge = demo_challenge,
        ac_CodeChallengeMethod = ''S256'', ac_ExpiresAt = 600000000000\<rparr>"
  "codeStore demo_issued ''nope'' = None"
  by (simp_all add: codeStore_demo_issued)



subsection \<open>The digest and its encoding\<close>

text \<open>
  A digest has 32 bytes; the encoding of \<open>n\<close> bytes has \<open>(4 * n + 2) div 3\<close> characters
  of the URL-safe alphabet and no padding. So a challenge that a verifier matches has
  43 characters of that alphabet.
\<close>

lemma length_round256: "length hs = 8 \<Longrightarrow> length (round256 hs kw) = 8"
proof -
  assume "length hs = 8"
  then obtain a b c d e f g h where "hs = [a, b, c, d, e, f, g, h]"
    by (auto simp: length_Suc_conv eval_nat_numeral)
  then show ?thesis by (cases kw) (simp add: rotate_vars_def)
qed

lemma length_foldl_round256: "length hs = 8 \<Longrightarrow> length (foldl round256 hs kws) = 8"
  by (induction kws arbitrary: hs) (simp_all add: length_round256)

lemma length_block: "length hs = 8 \<Longrightarrow> length (block hs p) = 8"
  by (simp add: block_def length_foldl_round256)

lemma length_blocks: "length hs = 8 \<Longrightarrow> length (blocks hs p) = 8"
proof (induction hs p rule: blocks.induct)
  case (1 hs p)
  then show ?case by (subst blocks.simps) (simp add: length_block)
qed

lemma length_Sum256: "length (Sum256 data) = 32"
proof -
  have "length (blocks init256 (data @ padding (length data))) = 8"
    by (rule length_blocks) (simp add: init256_def)
  moreover have "length (concat (map put_be32 ws)) = 4 * length ws" for ws
    by (induction ws) (simp_all add: put_be32_def)
  ultimately show ?thesis by (simp add: Sum256_def)
qed

lemma length_EncodeToString: "length (EncodeToString data) = (4 * length data + 2) div 3"
  by (induction data rule: EncodeToString.induct) simp_all

lemma enc6_alphabet: "enc6 v \<in> set encodeURL"
proof -
  have "length encodeURL = 64" by (simp add: encodeURL_def)
  then have "v mod 64 < length encodeURL" by simp
  then show ?thesis unfolding enc6_def by (rule nth_mem)
qed

lemma set_EncodeToString: "set (EncodeToString data) \<subseteq> set encodeURL"
  by (induction data rule: EncodeToString.induct) (simp_all add: enc6_alphabet)

lemma verifyPKCE_shape:
  "verifyPKCE challenge verifier \<Longrightarrow> length challenge = 43 \<and> set challenge \<subseteq> set encodeURL"
  using length_EncodeToString [of "Sum256 (bytes_of verifier)"]
    set_EncodeToString [of "Sum256 (bytes_of verifier)"]
  by (auto simp: verifyPKCE_def length_Sum256)

text \<open>A verifier matches one challenge only.\<close>

lemma verifyPKCE_challenge_unique:
  "verifyPKCE c v \<Longrightarrow> verifyPKCE c' v \<Longrightarrow> c' = c"
  by (simp add: verifyPKCE_def)

text \<open>
  Known answers of the model: the verifier and challenge of the example of RFC 7636
  (appendix B), and the digest of the 56-byte message of the SHA-256 examples, which
  takes two blocks.
\<close>

lemma Sum256_rfc7636:
  "Sum256 (bytes_of ''dBjftJeZ4CVP-mB92K27uhbUJU1p1r_wW1gFWFOEjXk'') =
     [19, 211, 30, 150, 26, 26, 216, 236, 47, 22, 177, 12, 76, 152, 46, 8,
      118, 168, 120, 173, 109, 241, 68, 86, 110, 225, 137, 74, 203, 112, 249, 195]"
  by code_simp

lemma verifyPKCE_rfc7636:
  "verifyPKCE ''E9Melhoa2OwvFrEMTJguCHaoeK1t8URWbuGJSstw-cM''
     ''dBjftJeZ4CVP-mB92K27uhbUJU1p1r_wW1gFWFOEjXk''"
  unfolding verifyPKCE_def Let_def Sum256_rfc7636
  by (simp add: enc6_def encodeURL_def)

lemma Sum256_two_blocks:
  "Sum256 (bytes_of ''abcdbcdecdefdefgefghfghighijhijkijkljklmklmnlmnomnopnopq'') =
     [36, 141, 106, 97, 210, 6, 56, 184, 229, 192, 38, 147, 12, 62, 96, 57,
      163, 60, 228, 89, 100, 255, 33, 103, 246, 236, 237, 212, 25, 219, 6, 193]"
  by code_simp

subsection \<open>The PKCE verifier\<close>

text \<open>
  C1. For every challenge and verifier, \<open>verifyPKCE challenge verifier\<close> is true exactly
  when the URL-safe base64 encoding without padding of the SHA-256 digest of the
  verifier's bytes is the challenge. The function is a pure function of its two
  arguments: it neither reads nor returns the stores.
\<close>

theorem verifyPKCE_iff:
  "verifyPKCE challenge verifier = (EncodeToString (Sum256 (bytes_of verifier)) = challenge)"
  by (simp add: verifyPKCE_def)

subsection \<open>The token endpoint\<close>

text \<open>What \<^verbatim>\<open>jsonError\<close> writes: the status and the object with the one field \<open>error\<close>.
  Two such answers are equal only when the error name and the status are.\<close>

lemma jsonError_answer:
  "jsonError err StatusBadRequest = Json 400 [''error'' \<mapsto> JString err]"
  "jsonError err StatusUnauthorized = Json 401 [''error'' \<mapsto> JString err]"
  by (simp_all add: jsonError_def StatusBadRequest_def StatusUnauthorized_def)

lemma jsonError_inject: "(jsonError err code = jsonError err' code') = (err = err' \<and> code = code')"
proof
  assume "jsonError err code = jsonError err' code'"
  then have "code = code'" and "[''error'' \<mapsto> JString err] = [''error'' \<mapsto> JString err']"
    by (simp_all add: jsonError_def)
  from this(2) have "JString err = JString err'" by (rule map_upd_eqD1)
  with \<open>code = code'\<close> show "err = err' \<and> code = code'" by simp
qed simp

text \<open>
  C9. A token request whose method is not POST is answered with
  \<open>Method not allowed\<close> (status 405) whatever its form, the stores, the clock and the
  generated identifier are, and both stores are left as they were.
\<close>

theorem handleToken_method_not_allowed:
  "Method r \<noteq> ''POST'' \<Longrightarrow>
   handleToken s r now_check uuid now_issue = (Error ''Method not allowed'' StatusMethodNotAllowed, s)"
  by (simp add: handleToken_def)

theorem handleToken_method_not_allowed_witness:
  "handleToken demo_issued
     (token_request ''GET'' ''authorization_code'' ''demo-client'' ''code-1'' demo_verifier)
     5 ''token-1'' 5
   = (Error ''Method not allowed'' StatusMethodNotAllowed, demo_issued)"
proof -
  have get: "Method (token_request ''GET'' ''authorization_code'' ''demo-client'' ''code-1''
               demo_verifier) \<noteq> ''POST''"
    by simp
  show ?thesis by (rule handleToken_method_not_allowed [OF get])
qed

text \<open>
  C3. A POST token request whose form parses is validated in this order, and the
  first failing step decides the answer: the grant type (else
  \<open>unsupported_grant_type\<close>, 400, store untouched); the code is taken out of the code
  store (else \<open>invalid_grant\<close>, 400); the code's expiry (else \<open>code_expired\<close>, 400);
  the code's client id against the request's (else \<open>invalid_client\<close>, 401); the PKCE
  check of the stored challenge against the supplied verifier (else
  \<open>invalid_request\<close>, 400). Each of these answers is the JSON object whose one field
  \<open>error\<close> is the name given, with the status given. When all five pass the answer
  has status 200. From the second step on, the store is the one with the code removed.
\<close>

theorem handleToken_validation_order:
  fixes s r now_check uuid now_issue form
  defines "res \<equiv> handleToken s r now_check uuid now_issue"
  defines "code \<equiv> Get form ''code''"
  defines "s1 \<equiv> s\<lparr>codeStore := (codeStore s)(code := None)\<rparr>"
  assumes post: "Method r = ''POST''" and form: "Form r = Some form"
  shows "(Get form ''grant_type'' \<noteq> ''authorization_code'' \<longrightarrow>
            res = (Json 400 [''error'' \<mapsto> JString ''unsupported_grant_type''], s))
     \<and> (Get form ''grant_type'' = ''authorization_code'' \<and> codeStore s code = None \<longrightarrow>
            res = (Json 400 [''error'' \<mapsto> JString ''invalid_grant''], s1))
     \<and> (\<forall>authCode. Get form ''grant_type'' = ''authorization_code'' \<and>
            codeStore s code = Some authCode \<and> After now_check (ac_ExpiresAt authCode) \<longrightarrow>
            res = (Json 400 [''error'' \<mapsto> JString ''code_expired''], s1))
     \<and> (\<forall>authCode. Get form ''grant_type'' = ''authorization_code'' \<and>
            codeStore s code = Some authCode \<and> \<not> After now_check (ac_ExpiresAt authCode) \<and>
            ac_ClientID authCode \<noteq> Get form ''client_id'' \<longrightarrow>
            res = (Json 401 [''error'' \<mapsto> JString ''invalid_client''], s1))
     \<and> (\<forall>authCode. Get form ''grant_type'' = ''authorization_code'' \<and>
            codeStore s code = Some authCode \<and> \<not> After now_check (ac_ExpiresAt authCode) \<and>
            ac_ClientID authCode = Get form ''client_id'' \<and>
            \<not> verifyPKCE (ac_CodeChallenge authCode) (Get form ''code_verifier'') \<longrightarrow>
            res = (Json 400 [''error'' \<mapsto> JString ''invalid_request''], s1))
     \<and> (\<forall>authCode. Get form ''grant_type'' = ''authorization_code'' \<and>
            codeStore s code = Some authCode \<and> \<not> After now_check (ac_ExpiresAt authCode) \<and>
            ac_ClientID authCode = Get form ''client_id'' \<and>
            verifyPKCE (ac_CodeChallenge authCode) (Get form ''code_verifier'') \<longrightarrow>
            status (fst res) = 200 \<and> codeStore (snd res) = codeStore s1)"
  unfolding res_def code_def s1_def using post form
  by (simp add: handleToken_def Let_def StatusOK_def jsonError_answer)

theorem handleToken_validation_order_witness:
  "handleToken demo_issued (token_request ''POST'' ''password'' ''other'' ''nope'' ''wrong-verifier'')
      600000000001 ''token-1'' 600000000001
     = (Json 400 [''error'' \<mapsto> JString ''unsupported_grant_type''], demo_issued)
   \<and> handleToken demo_issued
        (token_request ''POST'' ''authorization_code'' ''other'' ''nope'' ''wrong-verifier'')
        600000000001 ''token-1'' 600000000001
     = (Json 400 [''error'' \<mapsto> JString ''invalid_grant''],
        demo_issued\<lparr>codeStore := (codeStore demo_issued)(''nope'' := None)\<rparr>)
   \<and> handleToken demo_issued
        (token_request ''POST'' ''authorization_code'' ''other'' ''code-1'' ''wrong-verifier'')
        600000000001 ''token-1'' 600000000001
     = (Json 400 [''error'' \<mapsto> JString ''code_expired''],
        demo_issued\<lparr>codeStore := (codeStore demo_issued)(''code-1'' := None)\<rparr>)
   \<and> handleToken demo_issued
        (token_request ''POST'' ''authorization_code'' ''other'' ''code-1'' ''wrong-verifier'')
        5 ''token-1'' 5
     = (Json 401 [''error'' \<mapsto> JString ''invalid_client''],
        demo_issued\<lparr>codeStore := (codeStore demo_issued)(''code-1'' := None)\<rparr>)
   \<and> handleToken demo_issued
        (token_request ''POST'' ''authorization_code'' ''demo-client'' ''code-1'' ''wrong-verifier'')
        5 ''token-1'' 5
     = (Json 400 [''error'' \<mapsto> JString ''invalid_request''],
        demo_issued\<lparr>codeStore := (codeStore demo_issued)(''code-1'' := None)\<rparr>)
   \<and> status (fst (handleToken demo_issued demo_token 5 ''token-1'' 5)) = 200"
proof -
  note order = handleToken_validation_order [OF token_request_simps, where s = demo_issued]
  have 1: "handleToken demo_issued
        (token_request ''POST'' ''password'' ''other'' ''nope'' ''wrong-verifier'')
        600000000001 ''token-1'' 600000000001
     = (Json 400 [''error'' \<mapsto> JString ''unsupported_grant_type''], demo_issued)"
    using order [of "''password''" "''other''" "''nope''" "''wrong-verifier''"
                    600000000001 "''token-1''" 600000000001]
    by simp
  have 2: "handleToken demo_issued
        (token_request ''POST'' ''authorization_code'' ''other'' ''nope'' ''wrong-verifier'')
        600000000001 ''token-1'' 600000000001
     = (Json 400 [''error'' \<mapsto> JString ''invalid_grant''],
        demo_issued\<lparr>codeStore := (codeStore demo_issued)(''nope'' := None)\<rparr>)"
    using order [of "''authorization_code''" "''other''" "''nope''" "''wrong-verifier''"
                    600000000001 "''token-1''" 600000000001]
    by simp
  have 3: "handleToken demo_issued
        (token_request ''POST'' ''authorization_code'' ''other'' ''code-1'' ''wrong-verifier'')
        600000000001 ''token-1'' 600000000001
     = (Json 400 [''error'' \<mapsto> JString ''code_expired''],
        demo_issued\<lparr>codeStore := (codeStore demo_issued)(''code-1'' := None)\<rparr>)"
    using order [of "''authorization_code''" "''other''" "''code-1''" "''wrong-verifier''"
                    600000000001 "''token-1''" 600000000001]
    by (simp add: After_def)
  have 4: "handleToken demo_issued
        (token_request ''POST'' ''authorization_code'' ''other'' ''code-1'' ''wrong-verifier'')
        5 ''token-1'' 5
     = (Json 401 [''error'' \<mapsto> JString ''invalid_client''],
        demo_issued\<lparr>codeStore := (codeStore demo_issued)(''code-1'' := None)\<rparr>)"
    using order [of "''authorization_code''" "''other''" "''code-1''" "''wrong-verifier''"
                    5 "''token-1''" 5]
    by (simp add: After_def)
  have 5: "handleToken demo_issued
        (token_request ''POST'' ''authorization_code'' ''demo-client'' ''code-1'' ''wrong-verifier'')
        5 ''token-1'' 5
     = (Json 400 [''error'' \<mapsto> JString ''invalid_request''],
        demo_issued\<lparr>codeStore := (codeStore demo_issued)(''code-1'' := None)\<rparr>)"
    using order [of "''authorization_code''" "''demo-client''" "''code-1''" "''wrong-verifier''"
                    5 "''token-1''" 5]
      verifyPKCE_wrong
    by (simp add: After_def)
  have 6: "status (fst (handleToken demo_issued demo_token 5 ''token-1'' 5)) = 200"
    using order [of "''authorization_code''" "''demo-client''" "''code-1''" demo_verifier
                    5 "''token-1''" 5]
      verifyPKCE_demo
    by (simp add: After_def demo_token_def)
  from 1 2 3 4 5 6 show ?thesis by blast
qed

text \<open>
  C4. A token request that passes the five validation steps stores, under the
  generated token value, an access token with that value, the request's client id and
  an expiry one hour (3600 * 10^9 ns) after the clock reading of the issue, and answers
  with the JSON object of \<open>access_token\<close>, \<open>token_type\<close> \<open>Bearer\<close> and
  \<open>expires_in\<close> 3600. The token value is whatever the UUID generator returned.
\<close>

theorem handleToken_success:
  assumes "Method r = ''POST''" and "Form r = Some form"
    and "Get form ''grant_type'' = ''authorization_code''"
    and "codeStore s (Get form ''code'') = Some authCode"
    and "\<not> After now_check (ac_ExpiresAt authCode)"
    and "ac_ClientID authCode = Get form ''client_id''"
    and "verifyPKCE (ac_CodeChallenge authCode) (Get form ''code_verifier'')"
  shows "handleToken s r now_check uuid now_issue =
     (Json 200 [''access_token'' \<mapsto> JString uuid, ''token_type'' \<mapsto> JString ''Bearer'',
                ''expires_in'' \<mapsto> JNumber 3600],
      s\<lparr>codeStore := (codeStore s)(Get form ''code'' := None),
        tokenStore := (tokenStore s)(uuid \<mapsto>
          \<lparr>at_Token = uuid, at_ClientID = Get form ''client_id'',
           at_ExpiresAt = now_issue + 3600 * 1000000000\<rparr>)\<rparr>)"
  using assms
  by (simp add: handleToken_def Let_def StatusOK_def Add_def Hour_def Minute_def)

theorem handleToken_success_witness:
  "handleToken demo_issued demo_token 5 ''token-1'' 5 =
     (Json 200 [''access_token'' \<mapsto> JString ''token-1'', ''token_type'' \<mapsto> JString ''Bearer'',
                ''expires_in'' \<mapsto> JNumber 3600],
      demo_issued\<lparr>codeStore := (codeStore demo_issued)(''code-1'' := None),
        tokenStore := (tokenStore demo_issued)(''token-1'' \<mapsto>
          \<lparr>at_Token = ''token-1'', at_ClientID = ''demo-client'',
           at_ExpiresAt = 3600000000005\<rparr>)\<rparr>)"
  using handleToken_success [OF demo_token_simps, where s = demo_issued and now_check = 5
      and ?uuid = "''token-1''" and now_issue = 5] verifyPKCE_demo
  by (simp add: After_def)

text \<open>
  C2. A token request that reaches the code lookup (POST, form parsed, grant type
  accepted) leaves the code store without the entry of its code, whatever the answer
  is. Hence a following request for the same code value that reaches the lookup is
  answered \<open>invalid_grant\<close>, with any verifier; and a request for a code whose expiry
  has passed is answered \<open>code_expired\<close> while the code is gone from the store. Both
  answers are the JSON object with that \<open>error\<close> field and status 400.
\<close>

theorem handleToken_consumes_code:
  fixes s r now_check uuid now_issue form
  defines "res \<equiv> handleToken s r now_check uuid now_issue"
  assumes "Method r = ''POST''" and "Form r = Some form"
    and "Get form ''grant_type'' = ''authorization_code''"
  shows "codeStore (snd res) = (codeStore s)(Get form ''code'' := None)
     \<and> (\<forall>r' form' now_check' uuid' now_issue'.
          Method r' = ''POST'' \<and> Form r' = Some form' \<and>
          Get form' ''grant_type'' = ''authorization_code'' \<and>
          Get form' ''code'' = Get form ''code'' \<longrightarrow>
          fst (handleToken (snd res) r' now_check' uuid' now_issue')
            = Json 400 [''error'' \<mapsto> JString ''invalid_grant''])
     \<and> (\<forall>authCode. codeStore s (Get form ''code'') = Some authCode \<and>
          After now_check (ac_ExpiresAt authCode) \<longrightarrow>
          fst res = Json 400 [''error'' \<mapsto> JString ''code_expired''] \<and>
          codeStore (snd res) (Get form ''code'') = None)"
proof -
  have removed: "codeStore (snd res) = (codeStore s)(Get form ''code'' := None)"
    unfolding res_def using assms(2-4)
    by (simp add: handleToken_def Let_def split: option.splits)
  have again: "fst (handleToken (snd res) r' now_check' uuid' now_issue')
            = Json 400 [''error'' \<mapsto> JString ''invalid_grant'']"
    if "Method r' = ''POST''" "Form r' = Some form'"
       "Get form' ''grant_type'' = ''authorization_code''"
       "Get form' ''code'' = Get form ''code''"
    for r' form' now_check' uuid' now_issue'
    using that removed by (simp add: handleToken_def Let_def jsonError_answer)
  have expired: "fst res = Json 400 [''error'' \<mapsto> JString ''code_expired'']"
    if "codeStore s (Get form ''code'') = Some authCode" "After now_check (ac_ExpiresAt authCode)"
    for authCode
    unfolding res_def using that assms(2-4) by (simp add: handleToken_def Let_def jsonError_answer)
  show ?thesis using removed again expired by simp
qed

theorem handleToken_consumes_code_witness:
  "codeStore (snd (handleToken demo_issued demo_token 600000000001 ''token-1'' 600000000001))
     = (codeStore demo_issued)(''code-1'' := None)
   \<and> fst (handleToken
            (snd (handleToken demo_issued demo_token 600000000001 ''token-1'' 600000000001))
            demo_token 600000000002 ''token-2'' 600000000002)
     = Json 400 [''error'' \<mapsto> JString ''invalid_grant'']
   \<and> fst (handleToken demo_issued demo_token 600000000001 ''token-1'' 600000000001)
     = Json 400 [''error'' \<mapsto> JString ''code_expired'']
   \<and> codeStore (snd (handleToken demo_issued demo_token 600000000001 ''token-1'' 600000000001))
       ''code-1'' = None"
proof -
  let ?form = "values_of [(''grant_type'', ''authorization_code''), (''client_id'', ''demo-client''),
             (''code'', ''code-1''), (''redirect_uri'', ''http://localhost:8080/cb''),
             (''code_verifier'', demo_verifier)]"
  have grant: "Get ?form ''grant_type'' = ''authorization_code''" by simp
  have code: "Get ?form ''code'' = ''code-1''" by simp
  note consumed = handleToken_consumes_code [OF demo_token_simps grant, where s = demo_issued
      and now_check = 600000000001 and ?uuid = "''token-1''" and now_issue = 600000000001]
  from consumed have 1:
    "codeStore (snd (handleToken demo_issued demo_token 600000000001 ''token-1'' 600000000001))
       = (codeStore demo_issued)(''code-1'' := None)"
    by (simp only: code)
  from consumed have
    "Method demo_token = ''POST'' \<and> Form demo_token = Some ?form \<and>
     Get ?form ''grant_type'' = ''authorization_code'' \<and> Get ?form ''code'' = Get ?form ''code''
     \<longrightarrow> fst (handleToken
            (snd (handleToken demo_issued demo_token 600000000001 ''token-1'' 600000000001))
            demo_token 600000000002 ''token-2'' 600000000002)
          = Json 400 [''error'' \<mapsto> JString ''invalid_grant'']"
    by blast
  then have 2: "fst (handleToken
            (snd (handleToken demo_issued demo_token 600000000001 ''token-1'' 600000000001))
            demo_token 600000000002 ''token-2'' 600000000002)
          = Json 400 [''error'' \<mapsto> JString ''invalid_grant'']"
    by simp
  from consumed have 3:
    "fst (handleToken demo_issued demo_token 600000000001 ''token-1'' 600000000001)
       = Json 400 [''error'' \<mapsto> JString ''code_expired'']
     \<and> codeStore (snd (handleToken demo_issued demo_token 600000000001 ''token-1'' 600000000001))
         ''code-1'' = None"
    by (simp add: After_def)
  from 1 2 3 show ?thesis by blast
qed

subsection \<open>The authorization endpoint\<close>

text \<open>
  C6. An authorization request is validated in this order, and the first failing
  step decides the answer, each with its own message and status 400: the client id
  (\<open>Invalid client_id\<close>), the redirect URI (\<open>Invalid redirect_uri\<close>), the response
  type (\<open>Unsupported response_type\<close>), the PKCE parameters: a non-empty challenge and
  the method \<open>S256\<close> (\<open>PKCE required (code_challenge + S256)\<close>). When all four pass
  the answer is a redirect (302). Every answer other than the redirect leaves both
  stores as they were.
\<close>

theorem handleAuthorize_validation_order:
  fixes s r uuid now
  defines "q \<equiv> Query r"
  defines "res \<equiv> handleAuthorize s r uuid now"
  shows "(Get q ''client_id'' \<noteq> ClientID \<longrightarrow>
            res = (Error ''Invalid client_id'' StatusBadRequest, s))
     \<and> (Get q ''client_id'' = ClientID \<and> Get q ''redirect_uri'' \<noteq> RedirectURI \<longrightarrow>
            res = (Error ''Invalid redirect_uri'' StatusBadRequest, s))
     \<and> (Get q ''client_id'' = ClientID \<and> Get q ''redirect_uri'' = RedirectURI \<and>
        Get q ''response_type'' \<noteq> ''code'' \<longrightarrow>
            res = (Error ''Unsupported response_type'' StatusBadRequest, s))
     \<and> (Get q ''client_id'' = ClientID \<and> Get q ''redirect_uri'' = RedirectURI \<and>
        Get q ''response_type'' = ''code'' \<and>
        \<not> (Get q ''code_challenge'' \<noteq> [] \<and> Get q ''code_challenge_method'' = ''S256'') \<longrightarrow>
            res = (Error ''PKCE required (code_challenge + S256)'' StatusBadRequest, s))
     \<and> (Get q ''client_id'' = ClientID \<and> Get q ''redirect_uri'' = RedirectURI \<and>
        Get q ''response_type'' = ''code'' \<and>
        Get q ''code_challenge'' \<noteq> [] \<and> Get q ''code_challenge_method'' = ''S256'' \<longrightarrow>
            status (fst res) = StatusFound)
     \<and> (status (fst res) \<noteq> StatusFound \<longrightarrow> snd res = s)"
  unfolding q_def res_def
  by (simp add: handleAuthorize_def Let_def StatusFound_def StatusBadRequest_def)

theorem handleAuthorize_validation_order_witness:
  "handleAuthorize init_server
      (authorize_request ''token'' ''other'' ''http://other/cb'' ''xyz123'' [] ''plain'') ''code-1'' 0
     = (Error ''Invalid client_id'' StatusBadRequest, init_server)
   \<and> handleAuthorize init_server
      (authorize_request ''token'' ''demo-client'' ''http://other/cb'' ''xyz123'' [] ''plain'')
      ''code-1'' 0
     = (Error ''Invalid redirect_uri'' StatusBadRequest, init_server)
   \<and> handleAuthorize init_server
      (authorize_request ''token'' ''demo-client'' ''http://localhost:8080/cb'' ''xyz123'' [] ''plain'')
      ''code-1'' 0
     = (Error ''Unsupported response_type'' StatusBadRequest, init_server)
   \<and> handleAuthorize init_server
      (authorize_request ''code'' ''demo-client'' ''http://localhost:8080/cb'' ''xyz123''
         demo_challenge ''plain'')
      ''code-1'' 0
     = (Error ''PKCE required (code_challenge + S256)'' StatusBadRequest, init_server)
   \<and> status (fst (handleAuthorize init_server demo_authorize ''code-1'' 0)) = StatusFound
   \<and> snd (handleAuthorize init_server
      (authorize_request ''code'' ''demo-client'' ''http://localhost:8080/cb'' ''xyz123''
         [] ''S256'')
      ''code-1'' 0) = init_server"
proof -
  note order = handleAuthorize_validation_order [where s = init_server and ?uuid = "''code-1''"
      and now = 0]
  have 1: "handleAuthorize init_server
      (authorize_request ''token'' ''other'' ''http://other/cb'' ''xyz123'' [] ''plain'') ''code-1'' 0
     = (Error ''Invalid client_id'' StatusBadRequest, init_server)"
    using order [of "authorize_request ''token'' ''other'' ''http://other/cb'' ''xyz123'' [] ''plain''"]
    by (simp add: ClientID_def)
  have 2: "handleAuthorize init_server
      (authorize_request ''token'' ''demo-client'' ''http://other/cb'' ''xyz123'' [] ''plain'')
      ''code-1'' 0
     = (Error ''Invalid redirect_uri'' StatusBadRequest, init_server)"
    using order [of "authorize_request ''token'' ''demo-client'' ''http://other/cb'' ''xyz123''
                       [] ''plain''"]
    by (simp add: ClientID_def RedirectURI_def)
  have 3: "handleAuthorize init_server
      (authorize_request ''token'' ''demo-client'' ''http://localhost:8080/cb'' ''xyz123'' [] ''plain'')
      ''code-1'' 0
     = (Error ''Unsupported response_type'' StatusBadRequest, init_server)"
    using order [of "authorize_request ''token'' ''demo-client'' ''http://localhost:8080/cb''
                       ''xyz123'' [] ''plain''"]
    by (simp add: ClientID_def RedirectURI_def)
  have 4: "handleAuthorize init_server
      (authorize_request ''code'' ''demo-client'' ''http://localhost:8080/cb'' ''xyz123''
         demo_challenge ''plain'')
      ''code-1'' 0
     = (Error ''PKCE required (code_challenge + S256)'' StatusBadRequest, init_server)"
    using order [of "authorize_request ''code'' ''demo-client'' ''http://localhost:8080/cb''
                       ''xyz123'' demo_challenge ''plain''"]
    by (simp add: ClientID_def RedirectURI_def)
  have 5: "status (fst (handleAuthorize init_server demo_authorize ''code-1'' 0)) = StatusFound"
    using order [of demo_authorize]
    by (simp add: ClientID_def RedirectURI_def demo_authorize_def demo_challenge_def)
  have "handleAuthorize init_server
      (authorize_request ''code'' ''demo-client'' ''http://localhost:8080/cb'' ''xyz123''
         [] ''S256'')
      ''code-1'' 0
     = (Error ''PKCE required (code_challenge + S256)'' StatusBadRequest, init_server)"
    using order [of "authorize_request ''code'' ''demo-client'' ''http://localhost:8080/cb''
                       ''xyz123'' [] ''S256''"]
    by (simp add: ClientID_def RedirectURI_def)
  then have "status (fst (handleAuthorize init_server
      (authorize_request ''code'' ''demo-client'' ''http://localhost:8080/cb'' ''xyz123''
         [] ''S256'') ''code-1'' 0)) \<noteq> StatusFound"
    by (simp add: StatusBadRequest_def StatusFound_def)
  with order [of "authorize_request ''code'' ''demo-client'' ''http://localhost:8080/cb''
                       ''xyz123'' [] ''S256''"]
  have 6: "snd (handleAuthorize init_server
      (authorize_request ''code'' ''demo-client'' ''http://localhost:8080/cb'' ''xyz123''
         [] ''S256'')
      ''code-1'' 0) = init_server"
    by blast
  from 1 2 3 4 5 6 show ?thesis by blast
qed

text \<open>
  C5. An authorization request that passes the four validation steps stores, under
  the generated code value, an entry with that value, the registered client id and
  redirect URI, the request's challenge, the method \<open>S256\<close> and an expiry ten minutes
  (600 * 10^9 ns) after the clock reading, and answers with a redirect (302) to the
  registered redirect URI followed by \<open>?code=\<close>, the code, \<open>&state=\<close> and the
  request's \<open>state\<close> value as it is (empty when the request has none). The token
  store is not touched. The code value is whatever the UUID generator returned.
\<close>

theorem handleAuthorize_success:
  assumes "Get (Query r) ''client_id'' = ClientID"
    and "Get (Query r) ''redirect_uri'' = RedirectURI"
    and "Get (Query r) ''response_type'' = ''code''"
    and "Get (Query r) ''code_challenge'' \<noteq> []"
    and "Get (Query r) ''code_challenge_method'' = ''S256''"
  shows "handleAuthorize s r uuid now =
     (Redirect (RedirectURI @ ''?code='' @ uuid @ ''&state='' @ Get (Query r) ''state'') 302,
      s\<lparr>codeStore := (codeStore s)(uuid \<mapsto>
          \<lparr>ac_Code = uuid, ac_ClientID = ClientID, ac_RedirectURI = RedirectURI,
           ac_CodeChallenge = Get (Query r) ''code_challenge'',
           ac_CodeChallengeMethod = ''S256'',
           ac_ExpiresAt = now + 10 * 60 * 1000000000\<rparr>)\<rparr>)"
  using assms
  by (simp add: handleAuthorize_def Let_def StatusFound_def Add_def Minute_def)

theorem handleAuthorize_success_witness:
  "handleAuthorize init_server demo_authorize ''code-1'' 0 =
     (Redirect ''http://localhost:8080/cb?code=code-1&state=xyz123'' 302,
      init_server\<lparr>codeStore := (codeStore init_server)(''code-1'' \<mapsto>
          \<lparr>ac_Code = ''code-1'', ac_ClientID = ''demo-client'',
           ac_RedirectURI = ''http://localhost:8080/cb'',
           ac_CodeChallenge = ''LQZxoESZIZMv7j_6u2jBWnivm0jsDelp3OLcKeo64S4'',
           ac_CodeChallengeMethod = ''S256'',
           ac_ExpiresAt = 600000000000\<rparr>)\<rparr>)"
  using handleAuthorize_success [of demo_authorize init_server "''code-1''" 0]
  by (simp add: demo_authorize_def ClientID_def RedirectURI_def demo_challenge_def)

subsection \<open>The protected resource\<close>



subsection \<open>Client ids when requests do not overlap\<close>

lemma handleAuthorize_codeStore:
  "codeStore (snd (handleAuthorize s r uuid now)) c = Some authCode \<Longrightarrow>
   codeStore s c = Some authCode \<or> ac_ClientID authCode = ClientID"
  by (auto simp: handleAuthorize_def Let_def split: if_splits)

lemma handleAuthorize_tokenStore:
  "tokenStore (snd (handleAuthorize s r uuid now)) = tokenStore s"
  by (simp add: handleAuthorize_def Let_def)

lemma handleToken_codeStore:
  "codeStore (snd (handleToken s r now_check uuid now_issue)) c = Some authCode \<Longrightarrow>
   codeStore s c = Some authCode"
  by (auto simp: handleToken_def Let_def split: if_splits option.splits)

lemma handleToken_tokenStore:
  "tokenStore (snd (handleToken s r now_check uuid now_issue)) t = Some accessToken \<Longrightarrow>
   tokenStore s t = Some accessToken \<or>
   (\<exists>c authCode. codeStore s c = Some authCode \<and> ac_ClientID authCode = at_ClientID accessToken)"
  by (auto simp: handleToken_def Let_def split: if_splits option.splits)

lemma handleUserInfo_server: "snd (handleUserInfo s r now) = s"
  by (simp add: handleUserInfo_def Let_def split: option.splits)

lemma handleCallback_server: "snd (handleCallback s r) = s"
  by (simp add: handleCallback_def Let_def)

lemma reachable_client_ids:
  "reachable s \<Longrightarrow>
   (\<forall>c authCode. codeStore s c = Some authCode \<longrightarrow> ac_ClientID authCode = ClientID) \<and>
   (\<forall>t accessToken. tokenStore s t = Some accessToken \<longrightarrow> at_ClientID accessToken = ClientID)"
proof (induction rule: reachable.induct)
  case reachable_init
  show ?case by (simp add: init_server_def)
next
  case (reachable_authorize s r uuid now)
  then show ?case
    by (metis handleAuthorize_codeStore handleAuthorize_tokenStore)
next
  case (reachable_token s r now_check uuid now_issue)
  then show ?case
    by (metis handleToken_codeStore handleToken_tokenStore)
next
  case (reachable_userinfo s r now)
  then show ?case by (simp add: handleUserInfo_server)
next
  case (reachable_callback s r)
  then show ?case by (simp add: handleCallback_server)
qed

text \<open>
  When every request is handled from start to end before the next one, every state
  the server reaches has only tokens of the client \<open>demo-client\<close>.
\<close>

lemma reachable_tokenStore_client_id:
  "reachable s \<Longrightarrow> tokenStore s t = Some accessToken \<Longrightarrow>
   at_ClientID accessToken = ''demo-client''"
  using reachable_client_ids [of s] by (simp add: ClientID_def)

subsection \<open>Goroutines: one step\<close>

lemma holds_mu_simps [simp]:
  "\<not> holds_mu Start" "\<not> holds_mu Lock1" "holds_mu Lookup" "holds_mu Delete" "holds_mu Unlock1"
  "\<not> holds_mu Check" "\<not> holds_mu Lock2" "holds_mu Store" "holds_mu Unlock2"
  "\<not> holds_mu Reply" "\<not> holds_mu Finished"
  by (simp_all add: holds_mu_def)

lemma before_delete_simps [simp]:
  "before_delete Start" "before_delete Lock1" "before_delete Lookup" "before_delete Delete"
  "\<not> before_delete Unlock1" "\<not> before_delete Check" "\<not> before_delete Lock2"
  "\<not> before_delete Store" "\<not> before_delete Unlock2" "\<not> before_delete Reply"
  "\<not> before_delete Finished"
  by (simp_all add: before_delete_def)

lemma goto_simps [simp]:
  "g_pc (goto l g) = l" "g_authCode (goto l g) = g_authCode g" "g_reply (goto l g) = g_reply g"
  "g_job (goto l g) = g_job g" "g_req (goto l g) = g_req g" "g_uuid (goto l g) = g_uuid g"
  "g_now1 (goto l g) = g_now1 g" "g_now2 (goto l g) = g_now2 g"
  "g_accessToken (goto l g) = g_accessToken g"
  by (simp_all add: goto_def)

lemma finish_simps [simp]:
  "g_pc (finish resp g) = Finished" "g_authCode (finish resp g) = g_authCode g"
  "g_reply (finish resp g) = Some resp"
  "g_job (finish resp g) = g_job g" "g_req (finish resp g) = g_req g"
  "g_uuid (finish resp g) = g_uuid g"
  "g_now1 (finish resp g) = g_now1 g" "g_now2 (finish resp g) = g_now2 g"
  "g_accessToken (finish resp g) = g_accessToken g"
  by (simp_all add: finish_def)

lemmas eval_step = exec_def spawn_def goto_def finish_def acquire_def FormValue_def Let_def

lemma length_exec [simp]: "length (goroutines (exec i cfg)) = length (goroutines cfg)"
  by (simp add: exec_def split: prod.splits)

lemma length_run [simp]: "length (goroutines (run sched cfg)) = length (goroutines cfg)"
  by (induction sched arbitrary: cfg) simp_all

lemma run_append: "run (xs @ ys) cfg = run ys (run xs cfg)"
  by (induction xs arbitrary: cfg) simp_all

lemma exec_other: "j \<noteq> i \<Longrightarrow> goroutines (exec i cfg) ! j = goroutines cfg ! j"
  by (simp add: exec_def split: prod.splits)

lemma exec_finished:
  "g_pc (goroutines cfg ! j) = Finished \<Longrightarrow> g_pc (goroutines (exec i cfg) ! j) = Finished"
  by (cases "j = i") (simp_all add: exec_other, simp add: exec_def)

lemma run_finished:
  "g_pc (goroutines cfg ! j) = Finished \<Longrightarrow> g_pc (goroutines (run sched cfg) ! j) = Finished"
  by (induction sched arbitrary: cfg) (simp_all add: exec_finished)

subsection \<open>A goroutine alone is its handler\<close>

text \<open>
  On a free mutex, a goroutine that runs with no other goroutine returns within ten
  steps, and then the stores and its response are those of the handler function.
\<close>

lemma solo_authorize:
  fixes s r uuid now unused
  defines "cfg \<equiv> run [0, 0, 0, 0, 0]
     \<lparr>srv = s, mu = None, goroutines = [spawn AuthorizeJob r uuid now unused]\<rparr>"
  shows "srv cfg = snd (handleAuthorize s r uuid now)
     \<and> mu cfg = None
     \<and> map g_pc (goroutines cfg) = [Finished]
     \<and> map g_reply (goroutines cfg) = [Some (fst (handleAuthorize s r uuid now))]"
proof (cases "Get (Query r) ''client_id'' = ClientID")
  case False
  then show ?thesis
    unfolding cfg_def by (simp add: eval_step handleAuthorize_def)
next
  case client: True
  show ?thesis
  proof (cases "Get (Query r) ''redirect_uri'' = RedirectURI")
    case False
    with client show ?thesis
      unfolding cfg_def by (simp add: eval_step handleAuthorize_def)
  next
    case uri: True
    show ?thesis
    proof (cases "Get (Query r) ''response_type'' = ''code''")
      case False
      with client uri show ?thesis
        unfolding cfg_def by (simp add: eval_step handleAuthorize_def)
    next
      case rtype: True
      show ?thesis
      proof (cases "Get (Query r) ''code_challenge'' = [] \<or>
                    Get (Query r) ''code_challenge_method'' \<noteq> ''S256''")
        case True
        with client uri rtype show ?thesis
          unfolding cfg_def by (auto simp: eval_step handleAuthorize_def)
      next
        case False
        with client uri rtype show ?thesis
          unfolding cfg_def by (simp add: eval_step handleAuthorize_def)
      qed
    qed
  qed
qed

lemma solo_token:
  fixes s r uuid now_check now_issue
  defines "cfg \<equiv> run [0, 0, 0, 0, 0, 0, 0, 0, 0, 0]
     \<lparr>srv = s, mu = None, goroutines = [spawn TokenJob r uuid now_check now_issue]\<rparr>"
  shows "srv cfg = snd (handleToken s r now_check uuid now_issue)
     \<and> mu cfg = None
     \<and> map g_pc (goroutines cfg) = [Finished]
     \<and> map g_reply (goroutines cfg) = [Some (fst (handleToken s r now_check uuid now_issue))]"
proof (cases "Method r = ''POST''")
  case False
  then show ?thesis
    unfolding cfg_def by (simp add: eval_step handleToken_def)
next
  case post: True
  show ?thesis
  proof (cases "Form r")
    case None
    with post show ?thesis
      unfolding cfg_def by (simp add: eval_step handleToken_def)
  next
    case form: (Some form)
    show ?thesis
    proof (cases "Get form ''grant_type'' = ''authorization_code''")
      case False
      with post form show ?thesis
        unfolding cfg_def by (simp add: eval_step handleToken_def)
    next
      case grant: True
      show ?thesis
      proof (cases "codeStore s (Get form ''code'')")
        case None
        with post form grant show ?thesis
          unfolding cfg_def by (simp add: eval_step handleToken_def)
      next
        case code: (Some authCode)
        show ?thesis
        proof (cases "After now_check (ac_ExpiresAt authCode)")
          case True
          with post form grant code show ?thesis
            unfolding cfg_def by (simp add: eval_step handleToken_def)
        next
          case live: False
          show ?thesis
          proof (cases "ac_ClientID authCode = Get form ''client_id''")
            case False
            with post form grant code live show ?thesis
              unfolding cfg_def by (simp add: eval_step handleToken_def)
          next
            case client: True
            show ?thesis
            proof (cases "verifyPKCE (ac_CodeChallenge authCode) (Get form ''code_verifier'')")
              case False
              with post form grant code live client show ?thesis
                unfolding cfg_def by (simp add: eval_step handleToken_def)
            next
              case True
              with post form grant code live client show ?thesis
                unfolding cfg_def by (simp add: eval_step handleToken_def)
            qed
          qed
        qed
      qed
    qed
  qed
qed

lemma solo_userinfo:
  fixes s r now uuid unused
  defines "cfg \<equiv> run [0, 0, 0, 0, 0]
     \<lparr>srv = s, mu = None, goroutines = [spawn UserInfoJob r uuid now unused]\<rparr>"
  shows "srv cfg = snd (handleUserInfo s r now)
     \<and> mu cfg = None
     \<and> map g_pc (goroutines cfg) = [Finished]
     \<and> map g_reply (goroutines cfg) = [Some (fst (handleUserInfo s r now))]"
proof (cases "HasPrefix (Get (Header r) ''Authorization'') ''Bearer ''")
  case False
  then show ?thesis
    unfolding cfg_def by (simp add: eval_step handleUserInfo_def)
next
  case bearer: True
  show ?thesis
  proof (cases "tokenStore s (TrimPrefix (Get (Header r) ''Authorization'') ''Bearer '')")
    case None
    with bearer show ?thesis
      unfolding cfg_def by (simp add: eval_step handleUserInfo_def)
  next
    case (Some accessToken)
    with bearer show ?thesis
      unfolding cfg_def by (simp add: eval_step handleUserInfo_def)
  qed
qed

lemma solo_callback:
  fixes s r uuid now unused
  defines "cfg \<equiv> run [0]
     \<lparr>srv = s, mu = None, goroutines = [spawn CallbackJob r uuid now unused]\<rparr>"
  shows "srv cfg = snd (handleCallback s r)
     \<and> mu cfg = None
     \<and> map g_pc (goroutines cfg) = [Finished]
     \<and> map g_reply (goroutines cfg) = [Some (fst (handleCallback s r))]"
  unfolding cfg_def
  by (simp add: eval_step handleCallback_def Let_def)

subsection \<open>The race for one code\<close>

lemma store_inv_local:
  assumes "store_inv ac e gs" and "i < length gs"
    and "g_authCode g' = g_authCode (gs ! i)"
    and "e \<noteq> None \<Longrightarrow> before_delete (g_pc g') \<and> (g_pc g' = Delete) = (g_pc (gs ! i) = Delete)"
  shows "store_inv ac e (gs[i := g'])"
proof (cases e)
  case None
  with assms(1) obtain k where k: "k < length gs"
      "\<forall>j < length gs. (g_authCode (gs ! j) = Some ac) = (j = k)"
    by (auto simp: store_inv_def)
  then have "\<forall>j < length gs. (g_authCode (gs[i := g'] ! j) = Some ac) = (j = k)"
    using assms(2,3) by (simp add: nth_list_update)
  with k(1) None show ?thesis by (auto simp: store_inv_def)
next
  case (Some a)
  with assms show ?thesis
    by (auto simp: store_inv_def nth_list_update)
qed

lemma store_inv_lookup:
  assumes "store_inv ac e gs" and "i < length gs"
    and "g_authCode (gs ! i) = None" and "g_pc (gs ! i) \<noteq> Delete"
    and "g_authCode g' = e" and "g_pc g' = Delete"
  shows "store_inv ac e (gs[i := g'])"
proof (cases e)
  case None
  with assms(1) obtain k where k: "k < length gs"
      "\<forall>j < length gs. (g_authCode (gs ! j) = Some ac) = (j = k)"
    by (auto simp: store_inv_def)
  with assms(2,3) have "i \<noteq> k" by auto
  with k have "\<forall>j < length gs. (g_authCode (gs[i := g'] ! j) = Some ac) = (j = k)"
    using assms(2,5) None by (simp add: nth_list_update)
  with k(1) None show ?thesis by (auto simp: store_inv_def)
next
  case (Some a)
  with assms show ?thesis
    by (auto simp: store_inv_def nth_list_update before_delete_def)
qed

lemma store_inv_delete:
  assumes "store_inv ac e gs" and "i < length gs"
    and "g_pc (gs ! i) = Delete" and "\<forall>j < length gs. g_pc (gs ! j) = Delete \<longrightarrow> j = i"
    and "g_authCode g' = g_authCode (gs ! i)"
  shows "store_inv ac None (gs[i := g'])"
proof (cases e)
  case None
  with assms(1) obtain k where k: "k < length gs"
      "\<forall>j < length gs. (g_authCode (gs ! j) = Some ac) = (j = k)"
    by (auto simp: store_inv_def)
  then have "\<forall>j < length gs. (g_authCode (gs[i := g'] ! j) = Some ac) = (j = k)"
    using assms(2,5) by (simp add: nth_list_update)
  with k(1) show ?thesis by (auto simp: store_inv_def)
next
  case (Some a)
  with assms(1) have all: "\<forall>j < length gs.
      (g_pc (gs ! j) = Delete) = (g_authCode (gs ! j) = Some ac)"
    by (simp add: store_inv_def)
  with assms(2,3,4) have "\<forall>j < length gs. (g_authCode (gs ! j) = Some ac) = (j = i)"
    by blast
  then have "\<forall>j < length gs. (g_authCode (gs[i := g'] ! j) = Some ac) = (j = i)"
    using assms(2,5) by (simp add: nth_list_update)
  with assms(2) show ?thesis by (auto simp: store_inv_def)
qed

lemma store_inv_past_delete:
  "store_inv ac e gs \<Longrightarrow> i < length gs \<Longrightarrow> \<not> before_delete (g_pc (gs ! i)) \<Longrightarrow> e = None"
  by (cases e) (auto simp: store_inv_def)

lemma race_local_acquire:
  "race_local c ac None j g \<Longrightarrow> j \<noteq> i \<Longrightarrow> race_local c ac (Some i) j g"
  by (simp add: race_local_def)

lemma race_local_release:
  "race_local c ac (Some i) j g \<Longrightarrow> j \<noteq> i \<Longrightarrow> race_local c ac None j g"
  by (simp add: race_local_def)

lemma race_invI:
  assumes "i < length gs"
    and "m = None \<or> (\<exists>h < length gs. m = Some h)"
    and "race_local c ac m i g'"
    and "\<And>j. j < length gs \<Longrightarrow> j \<noteq> i \<Longrightarrow> race_local c ac m j (gs ! j)"
    and "store_inv ac (codeStore s c) (gs[i := g'])"
  shows "race_inv c ac \<lparr>srv = s, mu = m, goroutines = gs[i := g']\<rparr>"
  using assms by (simp add: race_inv_def nth_list_update)

lemma step_Check:
  "\<exists>g'. step TokenJob Check i g s m = (g', s, m) \<and>
     g_authCode g' = g_authCode g \<and> g_job g' = g_job g \<and> g_req g' = g_req g \<and>
     (g_pc g' = Finished \<or> g_pc g' = Lock2 \<and> g_authCode g \<noteq> None) \<and>
     (g_authCode g = None \<longrightarrow>
        g_reply g' = Some (jsonError ''invalid_grant'' StatusBadRequest))"
proof (cases "g_authCode g")
  case None
  then show ?thesis by simp
next
  case (Some a)
  show ?thesis
  proof (cases "After (g_now1 g) (ac_ExpiresAt a)")
    case True
    with Some show ?thesis by simp
  next
    case live: False
    show ?thesis
    proof (cases "ac_ClientID a \<noteq> FormValue (g_req g) ''client_id''")
      case True
      with Some live show ?thesis by simp
    next
      case client: False
      show ?thesis
      proof (cases "verifyPKCE (ac_CodeChallenge a) (FormValue (g_req g) ''code_verifier'')")
        case True
        with Some live client show ?thesis by simp
      next
        case False
        with Some live client show ?thesis by simp
      qed
    qed
  qed
qed

lemma race_inv_exec:
  assumes inv: "race_inv c ac cfg"
  shows "race_inv c ac (exec i cfg)"
proof (cases "i < length (goroutines cfg)")
  case False
  with inv show ?thesis by (simp add: exec_def)
next
  case i: True
  define gs where "gs = goroutines cfg"
  define s where "s = srv cfg"
  define m where "m = mu cfg"
  define g where "g = gs ! i"
  from i have n: "i < length gs" by (simp add: gs_def)
  from inv have all: "\<And>j. j < length gs \<Longrightarrow> race_local c ac m j (gs ! j)"
    and st: "store_inv ac (codeStore s c) gs"
    and held: "m = None \<or> (\<exists>h < length gs. m = Some h)"
    by (simp_all add: race_inv_def gs_def s_def m_def)
  from all [OF n] have loc: "race_local c ac m i g" by (simp add: g_def)
  then have att: "exchange_attempt c g" by (simp add: race_local_def)
  then have job: "g_job g = TokenJob" by (simp add: exchange_attempt_def)
  have exec: "exec i cfg =
      (case step TokenJob (g_pc g) i g s m of
         (g', s', m') \<Rightarrow> \<lparr>srv = s', mu = m', goroutines = gs[i := g']\<rparr>)"
    using i job by (simp add: exec_def gs_def s_def m_def g_def)
  show ?thesis
  proof (cases "g_pc g")
    case Start
    with att have step: "step TokenJob (g_pc g) i g s m = (goto Lock1 g, s, m)"
      by (auto simp: exchange_attempt_def)
    have "race_inv c ac \<lparr>srv = s, mu = m, goroutines = gs[i := goto Lock1 g]\<rparr>"
    proof (rule race_invI [OF n held _ all])
      show "race_local c ac m i (goto Lock1 g)"
        using loc Start by (simp add: race_local_def exchange_attempt_def)
      show "store_inv ac (codeStore s c) (gs[i := goto Lock1 g])"
        using st n Start by (intro store_inv_local) (simp_all add: g_def [symmetric])
    qed
    with exec step show ?thesis by simp
  next
    case Lock1
    show ?thesis
    proof (cases m)
      case None
      with Lock1 have step: "step TokenJob (g_pc g) i g s m = (goto Lookup g, s, Some i)"
        by (simp add: acquire_def)
      from n have lock: "Some i = None \<or> (\<exists>h < length gs. Some i = Some h)" by simp
      have "race_inv c ac \<lparr>srv = s, mu = Some i, goroutines = gs[i := goto Lookup g]\<rparr>"
      proof (rule race_invI [OF n lock])
        show "race_local c ac (Some i) i (goto Lookup g)"
          using loc Lock1 by (simp add: race_local_def exchange_attempt_def)
        show "race_local c ac (Some i) j (gs ! j)" if "j < length gs" "j \<noteq> i" for j
          using all [OF that(1)] that(2) None by (simp add: race_local_acquire)
        show "store_inv ac (codeStore s c) (gs[i := goto Lookup g])"
          using st n Lock1 by (intro store_inv_local) (simp_all add: g_def [symmetric])
      qed
      with exec step show ?thesis by simp
    next
      case (Some h)
      with Lock1 have step: "step TokenJob (g_pc g) i g s m = (g, s, m)"
        by (simp add: acquire_def)
      have "\<lparr>srv = s, mu = m, goroutines = gs[i := g]\<rparr> = cfg"
        by (simp add: g_def gs_def s_def m_def)
      with exec step inv show ?thesis by simp
    qed
  next
    case Lookup
    then have step: "step TokenJob (g_pc g) i g s m =
        (goto Delete (g\<lparr>g_authCode := codeStore s (FormValue (g_req g) ''code'')\<rparr>), s, m)"
      by simp
    let ?g' = "goto Delete (g\<lparr>g_authCode := codeStore s (FormValue (g_req g) ''code'')\<rparr>)"
    from att have code: "FormValue (g_req g) ''code'' = c" by (simp add: exchange_attempt_def)
    from st have entry: "codeStore s c = None \<or> codeStore s c = Some ac"
      by (cases "codeStore s c") (simp_all add: store_inv_def)
    have "race_inv c ac \<lparr>srv = s, mu = m, goroutines = gs[i := ?g']\<rparr>"
    proof (rule race_invI [OF n held _ all])
      show "race_local c ac m i ?g'"
        using loc Lookup entry by (auto simp: race_local_def exchange_attempt_def code)
      show "store_inv ac (codeStore s c) (gs[i := ?g'])"
        using st n Lookup loc
        by (intro store_inv_lookup) (simp_all add: g_def [symmetric] code race_local_def)
    qed
    with exec step show ?thesis by simp
  next
    case Delete
    then have step: "step TokenJob (g_pc g) i g s m =
        (goto Unlock1 g,
         s\<lparr>codeStore := (codeStore s)(FormValue (g_req g) ''code'' := None)\<rparr>, m)"
      by simp
    from att have code: "FormValue (g_req g) ''code'' = c" by (simp add: exchange_attempt_def)
    from loc Delete have m: "m = Some i" by (simp add: race_local_def)
    have only: "\<forall>j < length gs. g_pc (gs ! j) = Delete \<longrightarrow> j = i"
    proof (intro allI impI)
      fix j assume "j < length gs" "g_pc (gs ! j) = Delete"
      with all [of j] m show "j = i" by (simp add: race_local_def)
    qed
    have "race_inv c ac \<lparr>srv = s\<lparr>codeStore := (codeStore s)(c := None)\<rparr>, mu = m,
        goroutines = gs[i := goto Unlock1 g]\<rparr>"
    proof (rule race_invI [OF n held _ all])
      show "race_local c ac m i (goto Unlock1 g)"
        using loc Delete by (simp add: race_local_def exchange_attempt_def)
      have "store_inv ac None (gs[i := goto Unlock1 g])"
      proof (rule store_inv_delete [OF st n _ only])
        show "g_pc (gs ! i) = Delete" using Delete by (simp add: g_def)
        show "g_authCode (goto Unlock1 g) = g_authCode (gs ! i)" by (simp add: g_def)
      qed
      then show "store_inv ac (codeStore (s\<lparr>codeStore := (codeStore s)(c := None)\<rparr>) c)
          (gs[i := goto Unlock1 g])"
        by simp
    qed
    with exec step code show ?thesis by simp
  next
    case Unlock1
    then have step: "step TokenJob (g_pc g) i g s m = (goto Check g, s, None)"
      by simp
    from loc Unlock1 have m: "m = Some i" by (simp add: race_local_def)
    from st n Unlock1 have gone: "codeStore s c = None"
      by (intro store_inv_past_delete [of ac _ gs i]) (simp_all add: g_def [symmetric])
    have lock: "None = None \<or> (\<exists>h < length gs. None = Some h)" by simp
    have "race_inv c ac \<lparr>srv = s, mu = None, goroutines = gs[i := goto Check g]\<rparr>"
    proof (rule race_invI [OF n lock])
      show "race_local c ac None i (goto Check g)"
        using loc Unlock1 by (simp add: race_local_def exchange_attempt_def)
      show "race_local c ac None j (gs ! j)" if "j < length gs" "j \<noteq> i" for j
        using all [OF that(1)] that(2) m by (simp add: race_local_release)
      show "store_inv ac (codeStore s c) (gs[i := goto Check g])"
        using st n gone by (intro store_inv_local) (simp_all add: g_def [symmetric])
    qed
    with exec step show ?thesis by simp
  next
    case Check
    from st n Check have gone: "codeStore s c = None"
      by (intro store_inv_past_delete [of ac _ gs i]) (simp_all add: g_def [symmetric])
    from step_Check [of i g s m] Check
    obtain g' where step: "step TokenJob (g_pc g) i g s m = (g', s, m)"
      and g': "g_authCode g' = g_authCode g" "g_job g' = g_job g" "g_req g' = g_req g"
        "g_pc g' = Finished \<or> g_pc g' = Lock2 \<and> g_authCode g \<noteq> None"
        "g_authCode g = None \<longrightarrow> g_reply g' = Some (jsonError ''invalid_grant'' StatusBadRequest)"
      by auto
    have "race_inv c ac \<lparr>srv = s, mu = m, goroutines = gs[i := g']\<rparr>"
    proof (rule race_invI [OF n held _ all])
      show "race_local c ac m i g'"
        using loc Check g' by (auto simp: race_local_def exchange_attempt_def)
      show "store_inv ac (codeStore s c) (gs[i := g'])"
        using st n gone g' by (intro store_inv_local) (simp_all add: g_def [symmetric])
    qed
    with exec step show ?thesis by simp
  next
    case Lock2
    from st n Lock2 have gone: "codeStore s c = None"
      by (intro store_inv_past_delete [of ac _ gs i]) (simp_all add: g_def [symmetric])
    show ?thesis
    proof (cases m)
      case None
      with Lock2 have step: "step TokenJob (g_pc g) i g s m = (goto Store g, s, Some i)"
        by (simp add: acquire_def)
      from n have lock: "Some i = None \<or> (\<exists>h < length gs. Some i = Some h)" by simp
      have "race_inv c ac \<lparr>srv = s, mu = Some i, goroutines = gs[i := goto Store g]\<rparr>"
      proof (rule race_invI [OF n lock])
        show "race_local c ac (Some i) i (goto Store g)"
          using loc Lock2 by (simp add: race_local_def exchange_attempt_def)
        show "race_local c ac (Some i) j (gs ! j)" if "j < length gs" "j \<noteq> i" for j
          using all [OF that(1)] that(2) None by (simp add: race_local_acquire)
        show "store_inv ac (codeStore s c) (gs[i := goto Store g])"
          using st n gone by (intro store_inv_local) (simp_all add: g_def [symmetric])
      qed
      with exec step show ?thesis by simp
    next
      case (Some h)
      with Lock2 have step: "step TokenJob (g_pc g) i g s m = (g, s, m)"
        by (simp add: acquire_def)
      have "\<lparr>srv = s, mu = m, goroutines = gs[i := g]\<rparr> = cfg"
        by (simp add: g_def gs_def s_def m_def)
      with exec step inv show ?thesis by simp
    qed
  next
    case Store
    from st n Store have gone: "codeStore s c = None"
      by (intro store_inv_past_delete [of ac _ gs i]) (simp_all add: g_def [symmetric])
    let ?s' = "s\<lparr>tokenStore := (tokenStore s)(g_uuid g \<mapsto>
          \<lparr>at_Token = g_uuid g, at_ClientID = FormValue (g_req g) ''client_id'',
           at_ExpiresAt = Add (g_now2 g) (1 * Hour)\<rparr>)\<rparr>"
    from Store have step: "step TokenJob (g_pc g) i g s m = (goto Unlock2 g, ?s', m)"
      by simp
    have "race_inv c ac \<lparr>srv = ?s', mu = m, goroutines = gs[i := goto Unlock2 g]\<rparr>"
    proof (rule race_invI [OF n held _ all])
      show "race_local c ac m i (goto Unlock2 g)"
        using loc Store by (simp add: race_local_def exchange_attempt_def)
      have "store_inv ac (codeStore s c) (gs[i := goto Unlock2 g])"
        using st n gone by (intro store_inv_local) (simp_all add: g_def [symmetric])
      then show "store_inv ac (codeStore ?s' c) (gs[i := goto Unlock2 g])" by simp
    qed
    with exec step show ?thesis by simp
  next
    case Unlock2
    then have step: "step TokenJob (g_pc g) i g s m = (goto Reply g, s, None)"
      by simp
    from loc Unlock2 have m: "m = Some i" by (simp add: race_local_def)
    from st n Unlock2 have gone: "codeStore s c = None"
      by (intro store_inv_past_delete [of ac _ gs i]) (simp_all add: g_def [symmetric])
    have lock: "None = None \<or> (\<exists>h < length gs. None = Some h)" by simp
    have "race_inv c ac \<lparr>srv = s, mu = None, goroutines = gs[i := goto Reply g]\<rparr>"
    proof (rule race_invI [OF n lock])
      show "race_local c ac None i (goto Reply g)"
        using loc Unlock2 by (simp add: race_local_def exchange_attempt_def)
      show "race_local c ac None j (gs ! j)" if "j < length gs" "j \<noteq> i" for j
        using all [OF that(1)] that(2) m by (simp add: race_local_release)
      show "store_inv ac (codeStore s c) (gs[i := goto Reply g])"
        using st n gone by (intro store_inv_local) (simp_all add: g_def [symmetric])
    qed
    with exec step show ?thesis by simp
  next
    case Reply
    from st n Reply have gone: "codeStore s c = None"
      by (intro store_inv_past_delete [of ac _ gs i]) (simp_all add: g_def [symmetric])
    let ?g' = "finish (Json StatusOK [''access_token'' \<mapsto> JString (g_uuid g),
                             ''token_type'' \<mapsto> JString ''Bearer'',
                             ''expires_in'' \<mapsto> JNumber 3600]) g"
    from Reply have step: "step TokenJob (g_pc g) i g s m = (?g', s, m)"
      by simp
    have "race_inv c ac \<lparr>srv = s, mu = m, goroutines = gs[i := ?g']\<rparr>"
    proof (rule race_invI [OF n held _ all])
      show "race_local c ac m i ?g'"
        using loc Reply by (simp add: race_local_def exchange_attempt_def)
      show "store_inv ac (codeStore s c) (gs[i := ?g'])"
        using st n gone by (intro store_inv_local) (simp_all add: g_def [symmetric])
    qed
    with exec step show ?thesis by simp
  next
    case Finished
    then have step: "step TokenJob (g_pc g) i g s m = (g, s, m)"
      by simp
    have "\<lparr>srv = s, mu = m, goroutines = gs[i := g]\<rparr> = cfg"
      by (simp add: g_def gs_def s_def m_def)
    with exec step inv show ?thesis by simp
  qed
qed

lemma race_inv_run: "race_inv c ac cfg \<Longrightarrow> race_inv c ac (run sched cfg)"
  by (induction sched arbitrary: cfg) (simp_all add: race_inv_exec)

lemma race_local_spawn:
  "reaches_lookup c r \<Longrightarrow> race_local c ac None i (spawn TokenJob r uuid now1 now2)"
  by (auto simp: race_local_def exchange_attempt_def reaches_lookup_def spawn_def FormValue_def
      split: option.splits)

lemma race_inv_init:
  assumes "codeStore s c = Some ac" and "list_all (\<lambda>a. reaches_lookup c (fst a)) args"
  shows "race_inv c ac \<lparr>srv = s, mu = None, goroutines = racers args\<rparr>"
proof -
  have "race_local c ac None i (racers args ! i) \<and> g_pc (racers args ! i) = Start
        \<and> g_authCode (racers args ! i) = None" if "i < length args" for i
  proof -
    obtain r uuid now1 now2 where a: "args ! i = (r, uuid, now1, now2)"
      by (cases "args ! i") auto
    with assms(2) that have "reaches_lookup c r"
      by (auto simp: list_all_length)
    with a that show ?thesis
      by (simp add: racers_def race_local_spawn) (simp add: spawn_def)
  qed
  with assms(1) show ?thesis
    by (simp add: race_inv_def store_inv_def racers_def)
qed

text \<open>Progress: the goroutine that holds the mutex, or any goroutine when the mutex is
  free, returns when it is given enough turns, and leaves the mutex free.\<close>

lemma rank_le_10: "rank l \<le> 10"
  by (cases l) simp_all

lemma rank_0: "rank l = 0 \<Longrightarrow> l = Finished"
  by (cases l) simp_all

lemma exec_rank:
  assumes inv: "race_inv c ac cfg" and i: "i < length (goroutines cfg)"
    and free: "mu cfg = None \<or> mu cfg = Some i"
  shows "(mu (exec i cfg) = None \<or> mu (exec i cfg) = Some i) \<and>
         rank (g_pc (goroutines (exec i cfg) ! i)) \<le> rank (g_pc (goroutines cfg ! i)) - 1"
proof -
  let ?g = "goroutines cfg ! i"
  from inv i have loc: "race_local c ac (mu cfg) i ?g"
    by (simp add: race_inv_def)
  then have job: "g_job ?g = TokenJob" and att: "exchange_attempt c ?g"
    and lock: "holds_mu (g_pc ?g) = (mu cfg = Some i)"
    by (simp_all add: race_local_def exchange_attempt_def)
  show ?thesis
  proof (cases "g_pc ?g")
    case Start
    with i job att free show ?thesis
      by (auto simp: exec_def exchange_attempt_def)
  next
    case Lock1
    with lock free have "mu cfg = None" by auto
    with i job Lock1 show ?thesis
      by (simp add: exec_def acquire_def)
  next
    case Check
    from step_Check [of i ?g "srv cfg" "mu cfg"]
    obtain g' where "step TokenJob Check i ?g (srv cfg) (mu cfg) = (g', srv cfg, mu cfg)"
      and "g_pc g' = Finished \<or> g_pc g' = Lock2"
      by auto
    with i job Check free show ?thesis
      by (auto simp: exec_def)
  next
    case Lock2
    with lock free have "mu cfg = None" by auto
    with i job Lock2 show ?thesis
      by (simp add: exec_def acquire_def)
  qed (use i job free in \<open>simp_all add: exec_def\<close>)
qed

lemma solo_finishes:
  assumes "race_inv c ac cfg" and "i < length (goroutines cfg)"
    and "mu cfg = None \<or> mu cfg = Some i"
    and "rank (g_pc (goroutines cfg ! i)) \<le> k"
  shows "g_pc (goroutines (run (replicate k i) cfg) ! i) = Finished \<and>
         mu (run (replicate k i) cfg) = None"
  using assms
proof (induction k arbitrary: cfg)
  case 0
  then have fin: "g_pc (goroutines cfg ! i) = Finished" by (simp add: rank_0)
  from 0 have "race_local c ac (mu cfg) i (goroutines cfg ! i)"
    by (simp add: race_inv_def)
  with fin have "mu cfg \<noteq> Some i" by (simp add: race_local_def)
  with 0 fin show ?case by auto
next
  case (Suc k)
  from exec_rank [OF Suc.prems(1,2,3)] Suc.prems(4)
  have "mu (exec i cfg) = None \<or> mu (exec i cfg) = Some i"
    and "rank (g_pc (goroutines (exec i cfg) ! i)) \<le> k"
    by auto
  moreover have "race_inv c ac (exec i cfg)" by (rule race_inv_exec [OF Suc.prems(1)])
  moreover have "i < length (goroutines (exec i cfg))" using Suc.prems(2) by simp
  ultimately show ?case using Suc.IH [of "exec i cfg"] by simp
qed

lemma each_finishes:
  assumes "race_inv c ac cfg" and "mu cfg = None" and "\<forall>i \<in> set is. i < length (goroutines cfg)"
  shows "mu (run (concat (map (replicate 10) is)) cfg) = None \<and>
         (\<forall>i \<in> set is. g_pc (goroutines (run (concat (map (replicate 10) is)) cfg) ! i) = Finished)"
  using assms
proof (induction "is" arbitrary: cfg)
  case Nil
  then show ?case by simp
next
  case (Cons i "is")
  let ?cfg = "run (replicate 10 i) cfg"
  from Cons.prems have i: "i < length (goroutines cfg)" by simp
  from solo_finishes [OF Cons.prems(1) i _ rank_le_10] Cons.prems(2)
  have fin: "g_pc (goroutines ?cfg ! i) = Finished" and free: "mu ?cfg = None"
    by simp_all
  have inv: "race_inv c ac ?cfg" by (rule race_inv_run [OF Cons.prems(1)])
  from Cons.prems(3) have "\<forall>j \<in> set is. j < length (goroutines ?cfg)" by simp
  from Cons.IH [OF inv free this] run_finished [OF fin]
  show ?case by (simp add: run_append)
qed

lemma race_completes:
  assumes inv: "race_inv c ac cfg"
  shows "\<exists>sched. all_finished (run sched cfg)"
proof -
  obtain pre where free: "mu (run pre cfg) = None"
  proof (cases "mu cfg")
    case None
    then have "mu (run [] cfg) = None" by simp
    then show ?thesis by (rule that)
  next
    case (Some h)
    with inv have "h < length (goroutines cfg)" by (auto simp: race_inv_def)
    from solo_finishes [OF inv this _ rank_le_10] Some
    have "mu (run (replicate 10 h) cfg) = None" by simp
    then show ?thesis by (rule that)
  qed
  let ?cfg = "run pre cfg"
  let ?all = "concat (map (replicate 10) [0..<length (goroutines cfg)])"
  have "race_inv c ac ?cfg" by (rule race_inv_run [OF inv])
  from each_finishes [OF this free, of "[0..<length (goroutines cfg)]"]
  have "\<forall>i < length (goroutines cfg). g_pc (goroutines (run ?all ?cfg) ! i) = Finished"
    by simp
  then have "all_finished (run (pre @ ?all) cfg)"
    by (simp add: all_finished_def list_all_length run_append)
  then show ?thesis ..
qed

text \<open>The concrete race, evaluated.\<close>

lemmas eval_race = demo_raced_def demo_schedule_def demo_race_def racers_def spawn_def exec_def
  goto_def finish_def acquire_def FormValue_def token_request_def demo_token_def
  codeStore_demo_issued After_def verifyPKCE_demo

lemma demo_raced_eval:
  "map (\<lambda>g. (g_pc g, g_authCode g)) (goroutines demo_raced)
     = [(Finished, None), (Finished, codeStore demo_issued ''code-1''), (Finished, None)]"
  by (simp add: eval_race)

lemma demo_race_reaches: "list_all (\<lambda>a. reaches_lookup ''code-1'' (fst a)) demo_race"
  by (simp add: demo_race_def reaches_lookup_def)

text \<open>
  C8. Let the code store hold an entry for the code \<open>c\<close>, and let N > 0 goroutines
  run token requests that reach the lookup of \<open>c\<close>, interleaved in any way
  (\<open>sched\<close>). Then the interleaving can always be continued until all N have
  returned; and whenever all N have returned, exactly one of them has seen the entry
  in the store, and each of the other N - 1 has seen no entry and has answered
  \<open>invalid_grant\<close> (the JSON object with that \<open>error\<close> field, status 400).
\<close>

theorem exchange_race:
  fixes s c ac args sched
  defines "start \<equiv> \<lparr>srv = s, mu = None, goroutines = racers args\<rparr>"
  defines "gs \<equiv> goroutines (run sched start)"
  assumes entry: "codeStore s c = Some ac"
    and args: "args \<noteq> []" "list_all (\<lambda>a. reaches_lookup c (fst a)) args"
  shows "(\<exists>rest. all_finished (run (sched @ rest) start))
     \<and> (all_finished (run sched start) \<longrightarrow>
          length gs = length args \<and>
          (\<exists>k < length args. g_authCode (gs ! k) = Some ac \<and>
             (\<forall>i < length args. i \<noteq> k \<longrightarrow>
                g_authCode (gs ! i) = None \<and>
                g_reply (gs ! i) = Some (Json 400 [''error'' \<mapsto> JString ''invalid_grant'']))))"
proof -
  have len: "length gs = length args"
    by (simp add: gs_def start_def racers_def)
  have inv: "race_inv c ac (run sched start)"
    unfolding start_def by (rule race_inv_run [OF race_inv_init [OF entry args(2)]])
  from race_completes [OF inv] have completes: "\<exists>rest. all_finished (run (sched @ rest) start)"
    by (simp add: run_append)
  have one: "\<exists>k < length args. g_authCode (gs ! k) = Some ac \<and>
             (\<forall>i < length args. i \<noteq> k \<longrightarrow>
                g_authCode (gs ! i) = None \<and>
                g_reply (gs ! i) = Some (Json 400 [''error'' \<mapsto> JString ''invalid_grant'']))"
    if finished: "all_finished (run sched start)"
  proof -
    from finished have fin: "g_pc (gs ! i) = Finished" if "i < length args" for i
      using that len by (simp add: all_finished_def gs_def list_all_length)
    from args(1) have first: "0 < length args" by simp
    with fin [of 0] have "\<not> before_delete (g_pc (gs ! 0))" by simp
    with inv first len have gone: "codeStore (srv (run sched start)) c = None"
      unfolding race_inv_def gs_def by (metis store_inv_past_delete)
    with inv obtain k where k: "k < length gs"
        "\<forall>i < length gs. (g_authCode (gs ! i) = Some ac) = (i = k)"
      by (auto simp: race_inv_def store_inv_def gs_def)
    have "g_authCode (gs ! i) = None \<and>
          g_reply (gs ! i) = Some (Json 400 [''error'' \<mapsto> JString ''invalid_grant''])"
      if "i < length args" "i \<noteq> k" for i
    proof -
      from inv that(1) len have loc: "race_local c ac (mu (run sched start)) i (gs ! i)"
        by (simp add: race_inv_def gs_def)
      from k(2) that len have "g_authCode (gs ! i) \<noteq> Some ac" by simp
      with loc have "g_authCode (gs ! i) = None" by (auto simp: race_local_def)
      with loc fin [OF that(1)] show ?thesis by (simp add: race_local_def jsonError_answer)
    qed
    with k len show ?thesis by auto
  qed
  from completes one len show ?thesis by blast
qed

theorem exchange_race_witness:
  "all_finished demo_raced
   \<and> length (goroutines demo_raced) = 3
   \<and> g_authCode (goroutines demo_raced ! 1) = codeStore demo_issued ''code-1''
   \<and> g_reply (goroutines demo_raced ! 0) = Some (Json 400 [''error'' \<mapsto> JString ''invalid_grant''])
   \<and> g_reply (goroutines demo_raced ! 2) = Some (Json 400 [''error'' \<mapsto> JString ''invalid_grant''])"
proof -
  let ?gs = "goroutines demo_raced"
  have entry: "codeStore demo_issued ''code-1'' = Some \<lparr>ac_Code = ''code-1'',
        ac_ClientID = ''demo-client'', ac_RedirectURI = ''http://localhost:8080/cb'',
        ac_CodeChallenge = demo_challenge, ac_CodeChallengeMethod = ''S256'',
        ac_ExpiresAt = 600000000000\<rparr>" (is "_ = Some ?ac")
    by simp
  have three: "length demo_race = 3" "demo_race \<noteq> []"
    by (simp_all add: demo_race_def)
  from demo_raced_eval
  have "map fst (map (\<lambda>g. (g_pc g, g_authCode g)) ?gs) = [Finished, Finished, Finished]"
    and "map snd (map (\<lambda>g. (g_pc g, g_authCode g)) ?gs)
           = [None, codeStore demo_issued ''code-1'', None]"
    by simp_all
  then have pcs: "map g_pc ?gs = [Finished, Finished, Finished]"
    and codes: "map g_authCode ?gs = [None, codeStore demo_issued ''code-1'', None]"
    by (simp_all add: comp_def)
  have "all_finished demo_raced = list_all (\<lambda>l. l = Finished) (map g_pc ?gs)"
    by (simp add: all_finished_def list.pred_map comp_def)
  with pcs have finished: "all_finished demo_raced" by simp
  from pcs have "length (map g_pc ?gs) = 3" by simp
  then have len: "length ?gs = 3" by simp
  from codes have "map g_authCode ?gs ! 1 = codeStore demo_issued ''code-1''" by simp
  with len entry have winner: "g_authCode (?gs ! 1) = Some ?ac" by simp
  from exchange_race [OF entry three(2) demo_race_reaches, of demo_schedule] finished
  obtain k where k: "k < 3" "g_authCode (?gs ! k) = Some ?ac"
    and others: "\<forall>i < 3. i \<noteq> k \<longrightarrow> g_authCode (?gs ! i) = None \<and>
        g_reply (?gs ! i) = Some (Json 400 [''error'' \<mapsto> JString ''invalid_grant''])"
    unfolding demo_raced_def [symmetric] three(1) by (auto simp: demo_raced_def)
  have "k = 1"
  proof (rule ccontr)
    assume "k \<noteq> 1"
    with others have "g_authCode (?gs ! 1) = None" by simp
    with winner show False by simp
  qed
  with others have "g_reply (?gs ! 0) = Some (Json 400 [''error'' \<mapsto> JString ''invalid_grant''])"
    and "g_reply (?gs ! 2) = Some (Json 400 [''error'' \<mapsto> JString ''invalid_grant''])"
    by simp_all
  with finished len winner entry show ?thesis by simp
qed

subsection \<open>Client ids of the issued tokens\<close>

lemma step_clients:
  assumes "store_clients s" and "goroutine_clients g"
    and "step (g_job g) (g_pc g) i g s m = (g', s', m')"
  shows "store_clients s' \<and> goroutine_clients g'"
proof (cases "g_job g")
  case AuthorizeJob
  with assms show ?thesis
    by (cases "g_pc g")
       (auto simp: store_clients_def goroutine_clients_def goto_def finish_def acquire_def
          Let_def split: if_splits)
next
  case TokenJob
  with assms show ?thesis
    by (cases "g_pc g")
       (auto simp: store_clients_def goroutine_clients_def goto_def finish_def acquire_def
          split: if_splits option.splits)
next
  case UserInfoJob
  with assms show ?thesis
    by (cases "g_pc g")
       (auto simp: store_clients_def goroutine_clients_def goto_def finish_def acquire_def
          split: if_splits option.splits)
next
  case CallbackJob
  with assms show ?thesis
    by (cases "g_pc g")
       (auto simp: store_clients_def goroutine_clients_def goto_def finish_def acquire_def
          split: if_splits option.splits)
qed

lemma clients_inv_exec: "clients_inv cfg \<Longrightarrow> clients_inv (exec i cfg)"
proof (cases "i < length (goroutines cfg)")
  case False
  then show "clients_inv cfg \<Longrightarrow> clients_inv (exec i cfg)" by (simp add: exec_def)
next
  case True
  assume inv: "clients_inv cfg"
  let ?g = "goroutines cfg ! i"
  obtain g' s' m' where step: "step (g_job ?g) (g_pc ?g) i ?g (srv cfg) (mu cfg) = (g', s', m')"
    by (metis prod_cases3)
  from inv True have "goroutine_clients ?g"
    by (simp add: clients_inv_def list_all_length)
  with inv step have "store_clients s' \<and> goroutine_clients g'"
    by (intro step_clients [of "srv cfg" ?g i "mu cfg"]) (simp_all add: clients_inv_def)
  moreover from inv have "list_all goroutine_clients (goroutines cfg)"
    by (simp add: clients_inv_def)
  ultimately have "clients_inv \<lparr>srv = s', mu = m', goroutines = (goroutines cfg)[i := g']\<rparr>"
    using True by (auto simp: clients_inv_def list_all_length nth_list_update)
  with True step show "clients_inv (exec i cfg)" by (simp add: exec_def)
qed

lemma clients_inv_run: "clients_inv cfg \<Longrightarrow> clients_inv (run sched cfg)"
  by (induction sched arbitrary: cfg) (simp_all add: clients_inv_exec)

lemma clients_inv_serve: "clients_inv (serve arrivals)"
  by (auto simp: clients_inv_def serve_def store_clients_def init_server_def list_all_iff
      goroutine_clients_def spawn_def)

text \<open>The concrete interleaving, evaluated.\<close>

lemma demo_challenge_nonempty: "demo_challenge \<noteq> []"
  by (simp add: demo_challenge_def)

lemma tokenStore_demo_served:
  "tokenStore (srv demo_served) ''token-1''
     = Some \<lparr>at_Token = ''token-1'', at_ClientID = ''demo-client'', at_ExpiresAt = 3600000000005\<rparr>"
  by (simp add: demo_served_def demo_interleaving_def demo_arrivals_def serve_def eval_step
      init_server_def demo_authorize_def demo_token_def token_request_def userinfo_request_def
      ClientID_def RedirectURI_def After_def Add_def Hour_def Minute_def verifyPKCE_demo
      HasPrefix_def TrimPrefix_def demo_challenge_nonempty)

text \<open>
  C10. Whatever requests the server accepts, from its empty stores, and however their
  goroutines interleave, at every moment every access token of the token store has
  the client id \<open>demo-client\<close>: codes are stored with the registered client id, a
  token is stored only by an exchange whose \<open>client_id\<close> is that of the code it took,
  and nothing else writes the token store.
\<close>

theorem run_client_id:
  "tokenStore (srv (run sched (serve arrivals))) t = Some accessToken \<Longrightarrow>
   at_ClientID accessToken = ''demo-client''"
  using clients_inv_run [OF clients_inv_serve, of sched arrivals]
  by (simp add: clients_inv_def store_clients_def ClientID_def)

theorem run_client_id_witness:
  "tokenStore (srv (run demo_interleaving (serve demo_arrivals))) ''token-1''
     = Some \<lparr>at_Token = ''token-1'', at_ClientID = ''demo-client'', at_ExpiresAt = 3600000000005\<rparr>
   \<and> at_ClientID \<lparr>at_Token = ''token-1'', at_ClientID = ''demo-client'',
        at_ExpiresAt = 3600000000005\<rparr> = ''demo-client''"
proof -
  have stored: "tokenStore (srv (run demo_interleaving (serve demo_arrivals))) ''token-1''
     = Some \<lparr>at_Token = ''token-1'', at_ClientID = ''demo-client'', at_ExpiresAt = 3600000000005\<rparr>"
    using tokenStore_demo_served by (simp add: demo_served_def)
  from stored run_client_id [OF stored] show ?thesis by (intro conjI)
qed

end
